theory Spec2Isabelle
  imports Complex_Main "HOL-Library.Char_ord" "HOL-Library.List_Lexorder"
begin

section \<open>The three-layer cache stack of In-Memoria\<close>

text \<open>
  This theory embeds \<^verbatim>\<open>src/utils/lru-cache.ts\<close>, \<^verbatim>\<open>src/storage/query-cache.ts\<close> and
  \<^verbatim>\<open>src/storage/statement-cache.ts\<close>.

  Conventions of the embedding.
  \<^item> A JavaScript \<^verbatim>\<open>Map\<close> is an association list in insertion order (oldest first).
  \<^item> A JavaScript string is a \<^typ>\<open>string\<close>; each \<^typ>\<open>char\<close> stands for one UTF-16 code
    unit, restricted to the code units \<open>0..255\<close>.
  \<^item> A \<^verbatim>\<open>number\<close> that holds a size, a time stamp or a duration is an \<^typ>\<open>int\<close>
    (fractional values, \<^verbatim>\<open>NaN\<close> and the infinities are outside the model, except for
    the \<^verbatim>\<open>Infinity\<close> that \<^verbatim>\<open>QueryCache.set\<close> stores, which has a constructor of its
    own); a counter is a \<^typ>\<open>nat\<close>.
  \<^item> Every read of \<^verbatim>\<open>Date.now()\<close> is an argument of the operation that reads it.
  \<^item> A result of type \<^verbatim>\<open>T | undefined\<close> is an \<^typ>\<open>'a option\<close> with \<^const>\<open>None\<close> for
    \<^verbatim>\<open>undefined\<close>.
  \<^item> A callback or an injected collaborator (\<^verbatim>\<open>onEvict\<close>, \<^verbatim>\<open>computeFn\<close>,
    \<^verbatim>\<open>db.prepare\<close>) is a function on an explicit world state of the caller; it does not
    call back into the cache that invokes it.
  \<^item> An exception is the \<^const>\<open>Inl\<close> branch of a sum.
\<close>

subsection \<open>JavaScript \<^verbatim>\<open>Map\<close>\<close>

type_synonym ('k, 'a) jsmap = "('k \<times> 'a) list"

definition map_has :: "('k, 'a) jsmap \<Rightarrow> 'k \<Rightarrow> bool" where
  "map_has m k = (k \<in> fst ` set m)"

definition map_get :: "('k, 'a) jsmap \<Rightarrow> 'k \<Rightarrow> 'a option" where
  "map_get m k = map_of m k"

definition map_delete :: "('k, 'a) jsmap \<Rightarrow> 'k \<Rightarrow> ('k, 'a) jsmap" where
  "map_delete m k = filter (\<lambda>p. fst p \<noteq> k) m"

definition map_set :: "('k, 'a) jsmap \<Rightarrow> 'k \<Rightarrow> 'a \<Rightarrow> ('k, 'a) jsmap" where
  "map_set m k a =
     (if map_has m k then map (\<lambda>p. if fst p = k then (k, a) else p) m
      else m @ [(k, a)])"

subsection \<open>\<^verbatim>\<open>LRUCache\<close> (src/utils/lru-cache.ts)\<close>

datatype error = Error string

record 'v CacheEntry =
  entry_value :: 'v
  timestamp :: int

record ('v, 'w) LRUCacheOptions =
  opt_maxSize :: int
  opt_maxAge :: "int option"
  opt_onEvict :: "(string \<Rightarrow> 'v \<Rightarrow> 'w \<Rightarrow> 'w) option"

record ('v, 'w) LRUCache =
  cache :: "(string, 'v CacheEntry) jsmap"
  maxSize :: int
  maxAge :: "int option"
  onEvict :: "(string \<Rightarrow> 'v \<Rightarrow> 'w \<Rightarrow> 'w) option"
  hits :: nat
  misses :: nat

record LRUCacheStats =
  stat_hits :: nat
  stat_misses :: nat
  stat_size :: nat
  stat_hitRate :: rat

definition new_LRUCache :: "('v, 'w) LRUCacheOptions \<Rightarrow> error + ('v, 'w) LRUCache" where
  "new_LRUCache options =
     (if opt_maxSize options < 1 then Inl (Error ''maxSize must be at least 1'')
      else Inr \<lparr> cache = [], maxSize = opt_maxSize options, maxAge = opt_maxAge options,
                 onEvict = opt_onEvict options, hits = 0, misses = 0 \<rparr>)"

definition lru_size :: "('v, 'w) LRUCache \<Rightarrow> nat" where
  "lru_size c = length (cache c)"

text \<open>\<^verbatim>\<open>!this.maxAge\<close> holds for an absent and for a zero \<^verbatim>\<open>maxAge\<close>.\<close>

definition isExpired :: "('v, 'w) LRUCache \<Rightarrow> 'v CacheEntry \<Rightarrow> int \<Rightarrow> bool" where
  "isExpired c entry now =
     (case maxAge c of
        None \<Rightarrow> False
      | Some age \<Rightarrow> if age = 0 then False else now - timestamp entry > age)"

definition lru_get :: "('v, 'w) LRUCache \<Rightarrow> string \<Rightarrow> int \<Rightarrow> 'v option \<times> ('v, 'w) LRUCache" where
  "lru_get c key now =
     (case map_get (cache c) key of
        None \<Rightarrow> (None, c\<lparr>misses := misses c + 1\<rparr>)
      | Some entry \<Rightarrow>
          if isExpired c entry now
          then (None, c\<lparr>cache := map_delete (cache c) key, misses := misses c + 1\<rparr>)
          else (Some (entry_value entry),
                c\<lparr>cache := map_set (map_delete (cache c) key) key entry,
                  hits := hits c + 1\<rparr>))"

text \<open>
  \<^verbatim>\<open>set\<close> is the only operation that mentions \<^verbatim>\<open>this.onEvict\<close>, so it is the only one
  that threads the world \<open>w\<close> of the callback. On an empty map
  \<^verbatim>\<open>this.cache.keys().next().value\<close> is \<^verbatim>\<open>undefined\<close>; then nothing is deleted and
  \<^verbatim>\<open>firstEntry\<close> is falsy.
\<close>

definition lru_set ::
  "('v, 'w) LRUCache \<Rightarrow> string \<Rightarrow> 'v \<Rightarrow> int \<Rightarrow> 'w \<Rightarrow> ('v, 'w) LRUCache \<times> 'w" where
  "lru_set c key v now w =
     (let (m, w') =
        (if map_has (cache c) key then (map_delete (cache c) key, w)
         else if int (length (cache c)) \<ge> maxSize c then
           (case cache c of
              [] \<Rightarrow> (cache c, w)
            | (firstKey, firstEntry) # _ \<Rightarrow>
                (map_delete (cache c) firstKey,
                 case onEvict c of
                   None \<Rightarrow> w
                 | Some f \<Rightarrow> f firstKey (entry_value firstEntry) w))
         else (cache c, w))
      in (c\<lparr>cache := map_set m key \<lparr> entry_value = v, timestamp = now \<rparr>\<rparr>, w'))"

definition lru_has :: "('v, 'w) LRUCache \<Rightarrow> string \<Rightarrow> int \<Rightarrow> bool \<times> ('v, 'w) LRUCache" where
  "lru_has c key now =
     (case map_get (cache c) key of
        None \<Rightarrow> (False, c)
      | Some entry \<Rightarrow>
          if isExpired c entry now then (False, c\<lparr>cache := map_delete (cache c) key\<rparr>)
          else (True, c))"

definition lru_delete :: "('v, 'w) LRUCache \<Rightarrow> string \<Rightarrow> bool \<times> ('v, 'w) LRUCache" where
  "lru_delete c key = (map_has (cache c) key, c\<lparr>cache := map_delete (cache c) key\<rparr>)"

definition lru_clear :: "('v, 'w) LRUCache \<Rightarrow> ('v, 'w) LRUCache" where
  "lru_clear c = c\<lparr>cache := [], hits := 0, misses := 0\<rparr>"

definition lru_getStats :: "('v, 'w) LRUCache \<Rightarrow> LRUCacheStats" where
  "lru_getStats c =
     (let total = hits c + misses c
      in \<lparr> stat_hits = hits c, stat_misses = misses c, stat_size = length (cache c),
           stat_hitRate = (if total > 0 then of_nat (hits c) / of_nat total else 0) \<rparr>)"

text \<open>The visitor of \<^verbatim>\<open>forEach\<close> acts on a state \<open>u\<close> of its own.\<close>

definition lru_forEach :: "('v, 'w) LRUCache \<Rightarrow> ('v \<Rightarrow> string \<Rightarrow> 'u \<Rightarrow> 'u) \<Rightarrow> 'u \<Rightarrow> 'u" where
  "lru_forEach c callback u =
     fold (\<lambda>(key, entry) u'. callback (entry_value entry) key u') (cache c) u"

text \<open>
  The loop of \<^verbatim>\<open>cleanExpired\<close> deletes the entry it is visiting; a \<^verbatim>\<open>Map\<close> iterator
  is not disturbed by that, so the loop visits every entry once, in order.
\<close>

fun cleanExpired_loop ::
  "int \<Rightarrow> int \<Rightarrow> (string, 'v CacheEntry) jsmap \<Rightarrow> (string, 'v CacheEntry) jsmap \<Rightarrow> nat
     \<Rightarrow> nat \<times> (string, 'v CacheEntry) jsmap" where
  "cleanExpired_loop age now [] m cleaned = (cleaned, m)"
| "cleanExpired_loop age now ((key, entry) # rest) m cleaned =
     (if now - timestamp entry > age
      then cleanExpired_loop age now rest (map_delete m key) (cleaned + 1)
      else cleanExpired_loop age now rest m cleaned)"

definition lru_cleanExpired :: "('v, 'w) LRUCache \<Rightarrow> int \<Rightarrow> nat \<times> ('v, 'w) LRUCache" where
  "lru_cleanExpired c now =
     (case maxAge c of
        None \<Rightarrow> (0, c)
      | Some age \<Rightarrow>
          if age = 0 then (0, c)
          else (let (cleaned, m) = cleanExpired_loop age now (cache c) (cache c) 0
                in (cleaned, c\<lparr>cache := m\<rparr>)))"

text \<open>A call of one public operation, and a sequence of such calls.\<close>

datatype 'v lru_op =
    Get string int
  | Set string 'v int
  | Has string int
  | Delete string
  | Clear
  | GetStats
  | Size
  | ForEach
  | CleanExpired int

fun lru_step :: "'v lru_op \<Rightarrow> ('v, 'w) LRUCache \<times> 'w \<Rightarrow> ('v, 'w) LRUCache \<times> 'w" where
  "lru_step (Get key now) (c, w) = (snd (lru_get c key now), w)"
| "lru_step (Set key v now) (c, w) = lru_set c key v now w"
| "lru_step (Has key now) (c, w) = (snd (lru_has c key now), w)"
| "lru_step (Delete key) (c, w) = (snd (lru_delete c key), w)"
| "lru_step Clear (c, w) = (lru_clear c, w)"
| "lru_step GetStats (c, w) = (c, w)"
| "lru_step Size (c, w) = (c, w)"
| "lru_step ForEach (c, w) = (c, w)"
| "lru_step (CleanExpired now) (c, w) = (snd (lru_cleanExpired c now), w)"

definition lru_run :: "'v lru_op list \<Rightarrow> ('v, 'w) LRUCache \<times> 'w \<Rightarrow> ('v, 'w) LRUCache \<times> 'w" where
  "lru_run ops s = fold lru_step ops s"


text \<open>
  Well-formed caches: the keys of a \<^verbatim>\<open>Map\<close> are pairwise different, and the capacity
  was accepted by the constructor and is respected.
\<close>

definition lru_inv :: "('v, 'w) LRUCache \<Rightarrow> bool" where
  "lru_inv c =
     (distinct (map fst (cache c)) \<and> 1 \<le> maxSize c \<and> int (length (cache c)) \<le> maxSize c)"

subsection \<open>\<^verbatim>\<open>QueryCache\<close> (src/storage/query-cache.ts)\<close>

text \<open>
  \<^verbatim>\<open>expiresAt\<close> is a time or \<^verbatim>\<open>Infinity\<close>. The cached value is a JavaScript value
  of type \<^verbatim>\<open>T\<close> that may be \<^verbatim>\<open>undefined\<close>, hence an option.
\<close>

datatype expiry = At int | Infinity

fun now_gt :: "int \<Rightarrow> expiry \<Rightarrow> bool" where
  "now_gt now (At t) = (now > t)"
| "now_gt now Infinity = False"

record 'v QueryCacheEntry =
  qc_value :: "'v option"
  expiresAt :: expiry

record QueryCacheOptions =
  qopt_maxSize :: int
  qopt_ttlMs :: int
  qopt_refreshOnAccess :: "bool option"

record 'v QueryCache =
  qc_cache :: "('v QueryCacheEntry, nat) LRUCache"
  ttlMs :: int
  refreshOnAccess :: bool
  qc_hits :: nat
  qc_misses :: nat
  expirations :: nat
  evictions :: nat

record QueryCacheStats =
  qstat_hits :: nat
  qstat_misses :: nat
  qstat_size :: nat
  qstat_hitRate :: rat
  qstat_expirations :: nat
  qstat_evictions :: nat

text \<open>The world of the inner cache's \<^verbatim>\<open>onEvict\<close> is the counter \<^verbatim>\<open>this.evictions\<close>.\<close>

definition new_QueryCache :: "QueryCacheOptions \<Rightarrow> error + 'v QueryCache" where
  "new_QueryCache options =
     (case new_LRUCache \<lparr> opt_maxSize = qopt_maxSize options, opt_maxAge = None,
                          opt_onEvict = Some (\<lambda>_ _ n. n + 1) \<rparr> of
        Inl e \<Rightarrow> Inl e
      | Inr c \<Rightarrow>
          Inr \<lparr> qc_cache = c, ttlMs = qopt_ttlMs options,
                refreshOnAccess = (case qopt_refreshOnAccess options of None \<Rightarrow> False | Some b \<Rightarrow> b),
                qc_hits = 0, qc_misses = 0, expirations = 0, evictions = 0 \<rparr>)"

text \<open>
  \<^verbatim>\<open>entry.expiresAt = ...\<close> in \<^verbatim>\<open>QueryCache.get\<close> assigns to the object that the inner
  map holds under \<open>key\<close> (the inner \<^verbatim>\<open>get\<close> returned a reference to it).
\<close>

definition assign_expiresAt ::
  "('v QueryCacheEntry, 'w) LRUCache \<Rightarrow> string \<Rightarrow> expiry \<Rightarrow> ('v QueryCacheEntry, 'w) LRUCache" where
  "assign_expiresAt c key t =
     c\<lparr>cache := map (\<lambda>(k, e). if k = key
                              then (k, e\<lparr>entry_value := (entry_value e)\<lparr>expiresAt := t\<rparr>\<rparr>)
                              else (k, e)) (cache c)\<rparr>"

text \<open>
  The three times are the reads of \<^verbatim>\<open>Date.now()\<close> in the inner \<^verbatim>\<open>get\<close>, in the TTL
  check and in the refresh.
\<close>

fun qc_get :: "'v QueryCache \<Rightarrow> string \<Rightarrow> int \<times> int \<times> int \<Rightarrow> 'v option \<times> 'v QueryCache" where
  "qc_get qc key (now0, now1, now2) =
     (case lru_get (qc_cache qc) key now0 of
        (None, c1) \<Rightarrow> (None, qc\<lparr>qc_cache := c1, qc_misses := qc_misses qc + 1\<rparr>)
      | (Some entry, c1) \<Rightarrow>
          if ttlMs qc > 0 \<and> now_gt now1 (expiresAt entry)
          then (None, qc\<lparr>qc_cache := snd (lru_delete c1 key),
                          qc_misses := qc_misses qc + 1,
                          expirations := expirations qc + 1\<rparr>)
          else (qc_value entry,
                qc\<lparr>qc_cache := (if refreshOnAccess qc \<and> ttlMs qc > 0
                                 then assign_expiresAt c1 key (At (now2 + ttlMs qc))
                                 else c1),
                   qc_hits := qc_hits qc + 1\<rparr>))"

text \<open>The two times are the reads in \<^verbatim>\<open>QueryCache.set\<close> and in the inner \<^verbatim>\<open>set\<close>.\<close>

fun qc_set :: "'v QueryCache \<Rightarrow> string \<Rightarrow> 'v option \<Rightarrow> int \<times> int \<Rightarrow> 'v QueryCache" where
  "qc_set qc key v (now1, now2) =
     (let entry = \<lparr> qc_value = v,
                    expiresAt = (if ttlMs qc > 0 then At (now1 + ttlMs qc) else Infinity) \<rparr>;
          (c', n') = lru_set (qc_cache qc) key entry now2 (evictions qc)
      in qc\<lparr>qc_cache := c', evictions := n'\<rparr>)"

text \<open>
  \<^verbatim>\<open>computeFn\<close> acts on a world \<open>w\<close> of the caller and either throws (\<^const>\<open>Inl\<close>) or
  returns a value; an awaited promise that rejects is a throw. The call is modelled as one
  uninterrupted step: nothing else runs between the lookup and the store.
\<close>

definition qc_getOrCompute ::
  "'v QueryCache \<Rightarrow> string \<Rightarrow> ('w \<Rightarrow> ('e + 'v option) \<times> 'w) \<Rightarrow> int \<times> int \<times> int \<Rightarrow> int \<times> int
     \<Rightarrow> 'w \<Rightarrow> ('e + 'v option) \<times> 'v QueryCache \<times> 'w" where
  "qc_getOrCompute qc key computeFn tget tset w =
     (case qc_get qc key tget of
        (Some cached, qc1) \<Rightarrow> (Inr (Some cached), qc1, w)
      | (None, qc1) \<Rightarrow>
          (case computeFn w of
             (Inl e, w') \<Rightarrow> (Inl e, qc1, w')
           | (Inr v, w') \<Rightarrow> (Inr v, qc_set qc1 key v tset, w')))"

definition qc_clear :: "'v QueryCache \<Rightarrow> 'v QueryCache" where
  "qc_clear qc =
     qc\<lparr>qc_cache := lru_clear (qc_cache qc), qc_hits := 0, qc_misses := 0,
        expirations := 0, evictions := 0\<rparr>"

definition startsWith :: "string \<Rightarrow> string \<Rightarrow> bool" where
  "startsWith s p = (take (length p) s = p)"

definition qc_invalidateByPrefix :: "'v QueryCache \<Rightarrow> string \<Rightarrow> 'v QueryCache" where
  "qc_invalidateByPrefix qc p =
     (let keysToDelete =
            lru_forEach (qc_cache qc)
              (\<lambda>_ key keys. if startsWith key p then keys @ [key] else keys) []
      in qc\<lparr>qc_cache := fold (\<lambda>key c. snd (lru_delete c key)) keysToDelete (qc_cache qc)\<rparr>)"

definition qc_getStats :: "'v QueryCache \<Rightarrow> QueryCacheStats" where
  "qc_getStats qc =
     (let total = qc_hits qc + qc_misses qc; cacheStats = lru_getStats (qc_cache qc)
      in \<lparr> qstat_hits = qc_hits qc, qstat_misses = qc_misses qc,
           qstat_size = stat_size cacheStats,
           qstat_hitRate = (if total > 0 then of_nat (qc_hits qc) / of_nat total else 0),
           qstat_expirations = expirations qc, qstat_evictions = evictions qc \<rparr>)"


text \<open>
  The cache that \<^verbatim>\<open>new QueryCache({maxSize: n, ttlMs: ttl, refreshOnAccess: refresh})\<close>
  returns for \<open>n \<ge> 1\<close>.
\<close>

definition qc_fresh :: "int \<Rightarrow> int \<Rightarrow> bool \<Rightarrow> 'v QueryCache" where
  "qc_fresh n ttl refresh =
     \<lparr> qc_cache = \<lparr> cache = [], maxSize = n, maxAge = None,
                      onEvict = Some (\<lambda>_ _ n. n + 1), hits = 0, misses = 0 \<rparr>,
       ttlMs = ttl, refreshOnAccess = refresh,
       qc_hits = 0, qc_misses = 0, expirations = 0, evictions = 0 \<rparr>"

text \<open>
  The compute function of the test ``should not cache failed computations'': it counts its
  calls in \<^verbatim>\<open>callCount\<close>, throws on the first call and returns a value afterwards.
\<close>

definition failing_then :: "'e \<Rightarrow> 'v option \<Rightarrow> nat \<Rightarrow> ('e + 'v option) \<times> nat" where
  "failing_then err v callCount =
     (if callCount + 1 = 1 then Inl err else Inr v, callCount + 1)"

subsection \<open>\<^verbatim>\<open>generateCacheKey\<close> (src/storage/query-cache.ts)\<close>



text \<open>
  The order of \<^verbatim>\<open>Object.keys\<close> and of \<^verbatim>\<open>JSON.stringify\<close>
  (\<^verbatim>\<open>OrdinaryOwnPropertyKeys\<close>): array indices (canonical decimal strings below
  \<open>2\<^sup>3\<^sup>2 - 1\<close>) first, ascending, then the other names in insertion order.
\<close>

definition isDigit :: "char \<Rightarrow> bool" where
  "isDigit c = (48 \<le> (of_char c :: nat) \<and> (of_char c :: nat) \<le> 57)"

definition parse_decimal :: "string \<Rightarrow> nat" where
  "parse_decimal s = foldl (\<lambda>a c. 10 * a + ((of_char c :: nat) - 48)) 0 s"

definition isArrayIndex :: "string \<Rightarrow> bool" where
  "isArrayIndex k =
     (k \<noteq> [] \<and> list_all isDigit k \<and> (k = ''0'' \<or> hd k \<noteq> CHR ''0'') \<and>
      length k \<le> 10 \<and> parse_decimal k < 2 ^ 32 - 1)"

definition own_keys :: "(string, 'a) jsmap \<Rightarrow> string list" where
  "own_keys obj =
     sort_key parse_decimal (filter isArrayIndex (map fst obj)) @
     filter (\<lambda>k. \<not> isArrayIndex k) (map fst obj)"











fun join :: "string \<Rightarrow> string list \<Rightarrow> string" where
  "join sep [] = []"
| "join sep [x] = x"
| "join sep (x # y # ys) = x @ sep @ join sep (y # ys)"





subsection \<open>\<^verbatim>\<open>StatementCache\<close> (src/storage/statement-cache.ts)\<close>

text \<open>The white space of \<^verbatim>\<open>\s\<close> and of \<^verbatim>\<open>trim\<close> among the code units below 256.\<close>

definition isSpace :: "char \<Rightarrow> bool" where
  "isSpace c = (c \<in> {CHR 0x09, CHR 0x0A, CHR 0x0B, CHR 0x0C, CHR 0x0D, CHR 0x20, CHR 0xA0})"

text \<open>\<^verbatim>\<open>.replace(/\s+/g, ' ')\<close>: every maximal run of white space becomes one space.\<close>

function replace_ws :: "string \<Rightarrow> string" where
  "replace_ws [] = []"
| "replace_ws (c # cs) =
     (if isSpace c then CHR 0x20 # replace_ws (dropWhile isSpace cs) else c # replace_ws cs)"
  by pat_completeness auto
termination
  by (relation "measure length") (auto simp: length_dropWhile_le less_Suc_eq_le)

definition trim :: "string \<Rightarrow> string" where
  "trim s = rev (dropWhile isSpace (rev (dropWhile isSpace s)))"

definition normalizeSQL :: "string \<Rightarrow> string" where
  "normalizeSQL sql = trim (replace_ws sql)"

text \<open>
  \<^verbatim>\<open>db.prepare\<close> acts on a world \<open>w\<close> (the database and whatever counts its calls) and
  returns a statement handle or throws. A handle is an object, hence truthy.
\<close>

record ('h, 'e, 'w) StatementCache =
  sc_cache :: "('h, unit) LRUCache"
  db_prepare :: "string \<Rightarrow> 'w \<Rightarrow> ('e + 'h) \<times> 'w"
  sc_hits :: nat
  sc_misses :: nat

definition new_StatementCache ::
  "(string \<Rightarrow> 'w \<Rightarrow> ('e + 'h) \<times> 'w) \<Rightarrow> int \<Rightarrow> error + ('h, 'e, 'w) StatementCache" where
  "new_StatementCache db n =
     (case new_LRUCache \<lparr> opt_maxSize = n, opt_maxAge = None, opt_onEvict = None \<rparr> of
        Inl e \<Rightarrow> Inl e
      | Inr c \<Rightarrow> Inr \<lparr> sc_cache = c, db_prepare = db, sc_hits = 0, sc_misses = 0 \<rparr>)"

text \<open>The two times are the reads of \<^verbatim>\<open>Date.now()\<close> in the inner \<^verbatim>\<open>get\<close> and \<^verbatim>\<open>set\<close>.\<close>

fun sc_prepare ::
  "('h, 'e, 'w) StatementCache \<Rightarrow> string \<Rightarrow> int \<times> int \<Rightarrow> 'w
     \<Rightarrow> ('e + 'h) \<times> ('h, 'e, 'w) StatementCache \<times> 'w" where
  "sc_prepare sc sql (now0, now1) w =
     (let normalizedSQL = normalizeSQL sql in
      case lru_get (sc_cache sc) normalizedSQL now0 of
        (Some cached, c1) \<Rightarrow> (Inr cached, sc\<lparr>sc_cache := c1, sc_hits := sc_hits sc + 1\<rparr>, w)
      | (None, c1) \<Rightarrow>
          (case db_prepare sc normalizedSQL w of
             (Inl e, w') \<Rightarrow> (Inl e, sc\<lparr>sc_cache := c1, sc_misses := sc_misses sc + 1\<rparr>, w')
           | (Inr stmt, w') \<Rightarrow>
               (Inr stmt,
                sc\<lparr>sc_cache := fst (lru_set c1 normalizedSQL stmt now1 ()),
                   sc_misses := sc_misses sc + 1\<rparr>,
                w')))"

definition sc_getStats :: "('h, 'e, 'w) StatementCache \<Rightarrow> LRUCacheStats" where
  "sc_getStats sc =
     (let total = sc_hits sc + sc_misses sc; cacheStats = lru_getStats (sc_cache sc)
      in \<lparr> stat_hits = sc_hits sc, stat_misses = sc_misses sc, stat_size = stat_size cacheStats,
           stat_hitRate = (if total > 0 then of_nat (sc_hits sc) / of_nat total else 0) \<rparr>)"

definition sc_clear :: "('h, 'e, 'w) StatementCache \<Rightarrow> ('h, 'e, 'w) StatementCache" where
  "sc_clear sc = sc\<lparr>sc_cache := lru_clear (sc_cache sc), sc_hits := 0, sc_misses := 0\<rparr>"

text \<open>
  The cache that \<^verbatim>\<open>new StatementCache(db, {maxSize: n})\<close> returns for \<open>n \<ge> 1\<close>, and the
  two mock databases of the tests, which count the calls of \<^verbatim>\<open>prepare\<close>: one returns a
  handle that records the text it was prepared from, the other always throws.
\<close>

definition sc_fresh ::
  "(string \<Rightarrow> 'w \<Rightarrow> ('e + 'h) \<times> 'w) \<Rightarrow> int \<Rightarrow> ('h, 'e, 'w) StatementCache" where
  "sc_fresh db n =
     \<lparr> sc_cache = \<lparr> cache = [], maxSize = n, maxAge = None, onEvict = None,
                      hits = 0, misses = 0 \<rparr>,
       db_prepare = db, sc_hits = 0, sc_misses = 0 \<rparr>"

definition mockDb :: "string \<Rightarrow> nat \<Rightarrow> (string + string) \<times> nat" where
  "mockDb sql calls = (Inr sql, calls + 1)"

definition throwingDb :: "string \<Rightarrow> nat \<Rightarrow> (string + string) \<times> nat" where
  "throwingDb sql calls = (Inl ''SQL syntax error'', calls + 1)"

subsection \<open>Notions used to state the properties of the key builder\<close>






subsection \<open>Notions used to state the properties of the normalisation\<close>

text \<open>
  The words of a text: its maximal runs of characters that are not white space. Two
  texts differ only in their white space when they have the same words.
\<close>

fun tokens :: "string \<Rightarrow> string list" where
  "tokens [] = []"
| "tokens (c # cs) =
     (if isSpace c then tokens cs
      else case cs of
             [] \<Rightarrow> [[c]]
           | d # _ \<Rightarrow>
               if isSpace d then [c] # tokens cs
               else (case tokens cs of [] \<Rightarrow> [[c]] | w # ws \<Rightarrow> (c # w) # ws))"

definition word :: "string \<Rightarrow> bool" where
  "word w = (w \<noteq> [] \<and> list_all (\<lambda>c. \<not> isSpace c) w)"

text \<open>
  What \<^verbatim>\<open>replace\<close> leaves around the words: one space in front when the text begins with
  white space, one behind when it ends with white space after a word.
\<close>

definition lead :: "string \<Rightarrow> string" where
  "lead s = (if s \<noteq> [] \<and> isSpace (hd s) then '' '' else [])"

definition trail :: "string \<Rightarrow> string" where
  "trail s = (if tokens s \<noteq> [] \<and> isSpace (last s) then '' '' else [])"

section \<open>Properties of the Bounded Ordered Cache\<close>

subsection \<open>The map operations\<close>

lemma map_get_Some_has: "map_get m k = Some a \<Longrightarrow> map_has m k"
  by (auto simp: map_get_def map_has_def dest: map_of_SomeD intro: rev_image_eqI)

lemma map_get_None_has: "map_get m k = None \<longleftrightarrow> \<not> map_has m k"
  by (simp add: map_get_def map_has_def map_of_eq_None_iff)

lemma map_has_delete [simp]: "map_has (map_delete m k) k' \<longleftrightarrow> map_has m k' \<and> k' \<noteq> k"
  by (auto simp: map_has_def map_delete_def)

lemma keys_map_delete [simp]: "fst ` set (map_delete m k) = fst ` set m - {k}"
  by (auto simp: map_delete_def)




lemma map_set_fresh: "\<not> map_has m k \<Longrightarrow> map_set m k a = m @ [(k, a)]"
  by (simp add: map_set_def)

lemma map_set_after_delete [simp]: "map_set (map_delete m k) k a = map_delete m k @ [(k, a)]"
  by (simp add: map_set_fresh)


lemma map_delete_absent: "\<not> map_has m k \<Longrightarrow> map_delete m k = m"
  by (auto simp: map_has_def map_delete_def filter_id_conv)

lemma map_delete_hd:
  "distinct (map fst ((k, a) # m)) \<Longrightarrow> map_delete ((k, a) # m) k = m"
  by (auto simp: map_delete_def filter_id_conv)












subsection \<open>Capacity\<close>

lemma maxSize_step [simp]: "maxSize (fst (lru_step op s)) = maxSize (fst s)"
  by (cases s; cases op)
     (simp_all add: lru_get_def lru_set_def lru_has_def lru_delete_def lru_clear_def
        lru_cleanExpired_def case_prod_beta Let_def split: option.splits list.splits)

lemma maxSize_run [simp]: "maxSize (fst (lru_run ops s)) = maxSize (fst s)"
  unfolding lru_run_def by (induction ops arbitrary: s) simp_all

lemma lru_set_new_full:
  assumes "lru_inv c" "\<not> map_has (cache c) key" "int (length (cache c)) \<ge> maxSize c"
  shows "cache c \<noteq> [] \<and>
         cache (fst (lru_set c key v now w)) =
           tl (cache c) @ [(key, \<lparr> entry_value = v, timestamp = now \<rparr>)] \<and>
         snd (lru_set c key v now w) =
           (case onEvict c of None \<Rightarrow> w
            | Some f \<Rightarrow> f (fst (hd (cache c))) (entry_value (snd (hd (cache c)))) w)"
proof -
  obtain firstKey firstEntry rest where c: "cache c = (firstKey, firstEntry) # rest"
    using assms by (cases "cache c") (auto simp: lru_inv_def)
  then have del: "map_delete (cache c) firstKey = rest"
    using assms(1) map_delete_hd [of firstKey firstEntry rest] by (simp add: lru_inv_def)
  have "\<not> map_has rest key" using assms(2) c by (auto simp: map_has_def)
  then show ?thesis using assms c del
    by (simp add: lru_set_def map_set_fresh split: option.splits)
qed



subsection \<open>Recency order\<close>

lemma lru_get_hit:
  assumes "lru_get c key now = (Some v, c')"
  shows "\<exists>entry. map_get (cache c) key = Some entry \<and> entry_value entry = v \<and>
           \<not> isExpired c entry now \<and>
           c' = c\<lparr>cache := map_delete (cache c) key @ [(key, entry)], hits := hits c + 1\<rparr>"
  using assms by (auto simp: lru_get_def split: option.splits if_splits)

text \<open>
  Claim C2. A \<^verbatim>\<open>get\<close> that hits moves the entry to the end of the iteration order (the
  most recently used position). A \<^verbatim>\<open>set\<close> of a new key in a full cache removes the
  first entry in iteration order, the least recently touched one, and only that one.
  With capacity 3 and no \<^verbatim>\<open>maxAge\<close>: after \<^verbatim>\<open>set(a), set(b), set(c), get(a), set(d)\<close>
  the keys are \<open>c, a, d\<close> in this order; \<open>b\<close> was evicted (and reported to \<^verbatim>\<open>onEvict\<close>
  when there is one), \<^verbatim>\<open>has('a')\<close> is true and \<^verbatim>\<open>has('b')\<close> is false.
\<close>

theorem lru_eviction_order:
  "(lru_get c key now = (Some v, c') \<longrightarrow>
      (\<exists>entry. map_get (cache c) key = Some entry \<and> entry_value entry = v \<and>
         cache c' = map_delete (cache c) key @ [(key, entry)]))
   \<and> (lru_inv c \<and> \<not> map_has (cache c) key \<and> int (length (cache c)) \<ge> maxSize c \<longrightarrow>
        cache c \<noteq> [] \<and>
        cache (fst (lru_set c key x now w)) =
          tl (cache c) @ [(key, \<lparr> entry_value = x, timestamp = now \<rparr>)])
   \<and> (let c0 = \<lparr> cache = [], maxSize = 3, maxAge = None, onEvict = f, hits = 0, misses = 0 \<rparr>;
           s = lru_run [Set ''a'' va t1, Set ''b'' vb t2, Set ''c'' vc t3, Get ''a'' t4,
                        Set ''d'' vd t5] (c0, w0)
       in new_LRUCache \<lparr> opt_maxSize = 3, opt_maxAge = None, opt_onEvict = f \<rparr> = Inr c0 \<and>
          map fst (cache (fst s)) = [''c'', ''a'', ''d''] \<and>
          fst (lru_has (fst s) ''a'' t6) = True \<and>
          fst (lru_has (fst s) ''b'' t6) = False \<and>
          fst (lru_has (fst s) ''c'' t6) = True \<and>
          fst (lru_has (fst s) ''d'' t6) = True \<and>
          snd s = (case f of None \<Rightarrow> w0 | Some g \<Rightarrow> g ''b'' vb w0))"
proof (intro conjI impI)
  assume "lru_get c key now = (Some v, c')"
  from lru_get_hit [OF this]
  show "\<exists>entry. map_get (cache c) key = Some entry \<and> entry_value entry = v \<and>
         cache c' = map_delete (cache c) key @ [(key, entry)]"
    by auto
next
  assume a: "lru_inv c \<and> \<not> map_has (cache c) key \<and> int (length (cache c)) \<ge> maxSize c"
  then show "cache c \<noteq> []"
    using lru_set_new_full [of c key x now w] by simp
  from a show "cache (fst (lru_set c key x now w)) =
          tl (cache c) @ [(key, \<lparr> entry_value = x, timestamp = now \<rparr>)]"
    using lru_set_new_full [of c key x now w] by simp
next
  show "let c0 = \<lparr> cache = [], maxSize = 3, maxAge = None, onEvict = f, hits = 0, misses = 0 \<rparr>;
           s = lru_run [Set ''a'' va t1, Set ''b'' vb t2, Set ''c'' vc t3, Get ''a'' t4,
                        Set ''d'' vd t5] (c0, w0)
       in new_LRUCache \<lparr> opt_maxSize = 3, opt_maxAge = None, opt_onEvict = f \<rparr> = Inr c0 \<and>
          map fst (cache (fst s)) = [''c'', ''a'', ''d''] \<and>
          fst (lru_has (fst s) ''a'' t6) = True \<and>
          fst (lru_has (fst s) ''b'' t6) = False \<and>
          fst (lru_has (fst s) ''c'' t6) = True \<and>
          fst (lru_has (fst s) ''d'' t6) = True \<and>
          snd s = (case f of None \<Rightarrow> w0 | Some g \<Rightarrow> g ''b'' vb w0)"
  proof -
    let ?c0 = "\<lparr> cache = [], maxSize = 3, maxAge = None, onEvict = f, hits = 0, misses = 0 \<rparr>"
    have run: "lru_run [Set ''a'' va t1, Set ''b'' vb t2, Set ''c'' vc t3, Get ''a'' t4,
                          Set ''d'' vd t5] (?c0, w0)
       = (\<lparr> cache = [(''c'', \<lparr> entry_value = vc, timestamp = t3 \<rparr>),
                     (''a'', \<lparr> entry_value = va, timestamp = t1 \<rparr>),
                     (''d'', \<lparr> entry_value = vd, timestamp = t5 \<rparr>)],
            maxSize = 3, maxAge = None, onEvict = f, hits = 1, misses = 0 \<rparr>,
          case f of None \<Rightarrow> w0 | Some g \<Rightarrow> g ''b'' vb w0)"
      by (cases f)
         (simp_all add: lru_run_def lru_set_def lru_get_def isExpired_def map_has_def map_get_def
            map_set_def map_delete_def)
    show ?thesis
      unfolding Let_def run
      by (simp add: new_LRUCache_def lru_has_def isExpired_def map_get_def)
  qed
qed

theorem lru_eviction_order_witness:
  "map fst (cache (snd (lru_get
      (\<lparr> cache = [(''a'', \<lparr> entry_value = 1::nat, timestamp = 0 \<rparr>),
                   (''b'', \<lparr> entry_value = 2, timestamp = 0 \<rparr>)],
          maxSize = 2, maxAge = None, onEvict = None, hits = 0, misses = 0 \<rparr> :: (nat, unit) LRUCache)
      ''a'' 5))) = [''b'', ''a'']
   \<and> map fst (cache (fst (lru_set
      (\<lparr> cache = [(''a'', \<lparr> entry_value = 1::nat, timestamp = 0 \<rparr>),
                   (''b'', \<lparr> entry_value = 2, timestamp = 0 \<rparr>)],
          maxSize = 2, maxAge = None, onEvict = None, hits = 0, misses = 0 \<rparr> :: (nat, unit) LRUCache)
      ''c'' 3 5 ()))) = [''b'', ''c'']"
  using lru_eviction_order
    [where c = "\<lparr> cache = [(''a'', \<lparr> entry_value = 1::nat, timestamp = 0 \<rparr>),
                 (''b'', \<lparr> entry_value = 2, timestamp = 0 \<rparr>)],
        maxSize = 2, maxAge = None, onEvict = None, hits = 0, misses = 0 \<rparr> :: (nat, unit) LRUCache" and key = "''a''" and now = 5 and v = 1
       and c' = "snd (lru_get (\<lparr> cache = [(''a'', \<lparr> entry_value = 1::nat, timestamp = 0 \<rparr>),
                 (''b'', \<lparr> entry_value = 2, timestamp = 0 \<rparr>)],
        maxSize = 2, maxAge = None, onEvict = None, hits = 0, misses = 0 \<rparr> :: (nat, unit) LRUCache) ''a'' 5)", THEN conjunct1]
    lru_eviction_order
    [where c = "\<lparr> cache = [(''a'', \<lparr> entry_value = 1::nat, timestamp = 0 \<rparr>),
                 (''b'', \<lparr> entry_value = 2, timestamp = 0 \<rparr>)],
        maxSize = 2, maxAge = None, onEvict = None, hits = 0, misses = 0 \<rparr> :: (nat, unit) LRUCache" and key = "''c''" and now = 5 and x = 3 and w = "()", THEN conjunct2, THEN conjunct1]
  by (simp add: lru_get_def lru_inv_def isExpired_def map_get_def map_has_def map_delete_def
      map_set_def)


subsection \<open>The eviction callback\<close>

text \<open>
  Claim C5. The world \<open>w\<close> of \<^verbatim>\<open>onEvict\<close> is left as it is by \<^verbatim>\<open>get\<close>, \<^verbatim>\<open>has\<close> and
  \<^verbatim>\<open>cleanExpired\<close> (which remove expired entries), by \<^verbatim>\<open>delete\<close>, by \<^verbatim>\<open>clear\<close>, by the
  read-only operations, by \<^verbatim>\<open>set\<close> of a key that is present (whatever the size) and by
  \<^verbatim>\<open>set\<close> of a new key below capacity. \<^verbatim>\<open>set\<close> of a new key at capacity applies the
  callback exactly once, to the key and value of the first entry.
\<close>

theorem onEvict_only_on_capacity_eviction:
  "snd (lru_step (Get key now) (c, w)) = w
   \<and> snd (lru_step (Has key now) (c, w)) = w
   \<and> snd (lru_step (CleanExpired now) (c, w)) = w
   \<and> snd (lru_step (Delete key) (c, w)) = w
   \<and> snd (lru_step Clear (c, w)) = w
   \<and> snd (lru_step GetStats (c, w)) = w
   \<and> snd (lru_step Size (c, w)) = w
   \<and> snd (lru_step ForEach (c, w)) = w
   \<and> (map_has (cache c) key \<longrightarrow> snd (lru_step (Set key v now) (c, w)) = w)
   \<and> (\<not> map_has (cache c) key \<and> int (length (cache c)) < maxSize c \<longrightarrow>
        snd (lru_step (Set key v now) (c, w)) = w)
   \<and> (\<not> map_has (cache c) key \<and> int (length (cache c)) \<ge> maxSize c \<and>
        cache c = (firstKey, firstEntry) # rest \<longrightarrow>
        snd (lru_step (Set key v now) (c, w)) =
          (case onEvict c of None \<Rightarrow> w | Some f \<Rightarrow> f firstKey (entry_value firstEntry) w))"
  by (auto simp: lru_set_def split: option.splits)

theorem onEvict_only_on_capacity_eviction_witness:
  "snd (lru_step (Set ''b'' (7::nat) 5)
          (\<lparr> cache = [(''a'', \<lparr> entry_value = 1, timestamp = 0 \<rparr>),
                       (''b'', \<lparr> entry_value = 2, timestamp = 0 \<rparr>)],
              maxSize = 2, maxAge = None, onEvict = Some (\<lambda>k v log. log @ [(k, v)]),
              hits = 0, misses = 0 \<rparr>, [])) = []
   \<and> snd (lru_step (Set ''c'' (7::nat) 5)
          (\<lparr> cache = [(''a'', \<lparr> entry_value = 1, timestamp = 0 \<rparr>),
                       (''b'', \<lparr> entry_value = 2, timestamp = 0 \<rparr>)],
              maxSize = 2, maxAge = None, onEvict = Some (\<lambda>k v log. log @ [(k, v)]),
              hits = 0, misses = 0 \<rparr>, [])) = [(''a'', 1)]
   \<and> snd (lru_step (Set ''c'' (7::nat) 5)
          (\<lparr> cache = [(''a'', \<lparr> entry_value = 1, timestamp = 0 \<rparr>),
                       (''b'', \<lparr> entry_value = 2, timestamp = 0 \<rparr>)],
              maxSize = 3, maxAge = None, onEvict = Some (\<lambda>k v log. log @ [(k, v)]),
              hits = 0, misses = 0 \<rparr>, [])) = []"
  using onEvict_only_on_capacity_eviction
      [where key = "''b''" and c = "\<lparr> cache = [(''a'', \<lparr> entry_value = 1::nat, timestamp = 0 \<rparr>),
                       (''b'', \<lparr> entry_value = 2, timestamp = 0 \<rparr>)],
              maxSize = 2, maxAge = None, onEvict = Some (\<lambda>k v log. log @ [(k, v)]),
              hits = 0, misses = 0 \<rparr>" and w = "[]" and v = 7 and now = 5]
    onEvict_only_on_capacity_eviction
      [where key = "''c''" and c = "\<lparr> cache = [(''a'', \<lparr> entry_value = 1::nat, timestamp = 0 \<rparr>),
                       (''b'', \<lparr> entry_value = 2, timestamp = 0 \<rparr>)],
              maxSize = 2, maxAge = None, onEvict = Some (\<lambda>k v log. log @ [(k, v)]),
              hits = 0, misses = 0 \<rparr>" and w = "[]" and v = 7 and now = 5
         and firstKey = "''a''" and firstEntry = "\<lparr> entry_value = 1, timestamp = 0 \<rparr>"
         and rest = "[(''b'', \<lparr> entry_value = 2, timestamp = 0 \<rparr>)]"]
    onEvict_only_on_capacity_eviction
      [where key = "''c''" and c = "\<lparr> cache = [(''a'', \<lparr> entry_value = 1::nat, timestamp = 0 \<rparr>),
                       (''b'', \<lparr> entry_value = 2, timestamp = 0 \<rparr>)],
              maxSize = 3, maxAge = None, onEvict = Some (\<lambda>k v log. log @ [(k, v)]),
              hits = 0, misses = 0 \<rparr>" and w = "[]" and v = 7 and now = 5]
  by (simp add: map_has_def)

section \<open>Properties of the Query Result Cache\<close>

subsection \<open>Expiry\<close>

lemma map_delete_snoc_same [simp]: "map_delete (m @ [(k, a)]) k = map_delete m k"
  by (simp add: map_delete_def)

lemma map_delete_idem [simp]: "map_delete (map_delete m k) k = map_delete m k"
  by (simp add: map_delete_def)

lemma lru_get_present:
  assumes "map_get (cache c) key = Some e" "\<not> isExpired c e now"
  shows "lru_get c key now =
           (Some (entry_value e),
            c\<lparr>cache := map_delete (cache c) key @ [(key, e)], hits := hits c + 1\<rparr>)"
  using assms by (simp add: lru_get_def)

lemma isExpired_no_maxAge [simp]: "maxAge c = None \<Longrightarrow> \<not> isExpired c e now"
  by (simp add: isExpired_def)

text \<open>
  Claim C3. In a Query Result Cache with \<open>ttlMs > 0\<close> (whose inner cache has no
  \<^verbatim>\<open>maxAge\<close>, as the constructor builds it), a \<^verbatim>\<open>get\<close> of a stored key that reads a time
  after \<^verbatim>\<open>expiresAt\<close> returns \<^verbatim>\<open>undefined\<close>, deletes the entry, and adds one to
  \<^verbatim>\<open>misses\<close> and one to \<^verbatim>\<open>expirations\<close>; a \<^verbatim>\<open>get\<close> that reads a time not after
  \<^verbatim>\<open>expiresAt\<close> returns the stored value, counts a hit and keeps the entry. Neither
  touches \<^verbatim>\<open>evictions\<close>, and no \<^verbatim>\<open>set\<close> (the only place of capacity evictions) touches
  \<^verbatim>\<open>expirations\<close>.
\<close>

theorem ttl_expiry:
  assumes "ttlMs qc > 0" and "maxAge (qc_cache qc) = None"
    and "map_get (cache (qc_cache qc)) key = Some e"
  shows "(now_gt now1 (expiresAt (entry_value e)) \<longrightarrow>
            qc_get qc key (now0, now1, now2) =
              (None,
               qc\<lparr>qc_cache := (qc_cache qc)\<lparr>cache := map_delete (cache (qc_cache qc)) key,
                                           hits := hits (qc_cache qc) + 1\<rparr>,
                  qc_misses := qc_misses qc + 1,
                  expirations := expirations qc + 1\<rparr>))
       \<and> (\<not> now_gt now1 (expiresAt (entry_value e)) \<longrightarrow>
            fst (qc_get qc key (now0, now1, now2)) = qc_value (entry_value e) \<and>
            qc_hits (snd (qc_get qc key (now0, now1, now2))) = qc_hits qc + 1 \<and>
            qc_misses (snd (qc_get qc key (now0, now1, now2))) = qc_misses qc \<and>
            expirations (snd (qc_get qc key (now0, now1, now2))) = expirations qc \<and>
            map_has (cache (qc_cache (snd (qc_get qc key (now0, now1, now2))))) key)
       \<and> evictions (snd (qc_get qc key (now0, now1, now2))) = evictions qc
       \<and> expirations (qc_set qc key' v ts) = expirations qc"
proof -
  have g: "lru_get (qc_cache qc) key now0 =
      (Some (entry_value e),
       (qc_cache qc)\<lparr>cache := map_delete (cache (qc_cache qc)) key @ [(key, e)],
                     hits := hits (qc_cache qc) + 1\<rparr>)"
    using assms(2,3) by (simp add: lru_get_present)
  have s: "expirations (qc_set qc key' v ts) = expirations qc"
    by (cases ts) (simp add: Let_def case_prod_beta)
  show ?thesis
    using assms(1) g s
    by (simp add: lru_delete_def assign_expiresAt_def map_has_def image_iff)
qed


lemma new_QueryCache_fresh:
  "1 \<le> n \<Longrightarrow>
   new_QueryCache \<lparr> qopt_maxSize = n, qopt_ttlMs = ttl, qopt_refreshOnAccess = Some r \<rparr>
     = Inr (qc_fresh n ttl r)"
  by (simp add: new_QueryCache_def new_LRUCache_def qc_fresh_def)


text \<open>
  The scenario of the spec: \<open>ttlMs = 50\<close>, \<^verbatim>\<open>set('k','v')\<close> at time 1000, a \<^verbatim>\<open>get\<close> at
  once and a \<^verbatim>\<open>get\<close> 100 ms later.
\<close>

theorem ttl_expiry_witness:
  "fst (qc_get (qc_set (qc_fresh 10 50 False) ''k'' (Some ''v'') (1000, 1000)) ''k''
          (1000, 1000, 1000)) = Some ''v''
   \<and> qc_get (snd (qc_get (qc_set (qc_fresh 10 50 False) ''k'' (Some ''v'') (1000, 1000)) ''k''
                  (1000, 1000, 1000))) ''k'' (1100, 1100, 1100)
       = (None, \<lparr> qc_cache = \<lparr> cache = [], maxSize = 10, maxAge = None,
                                 onEvict = Some (\<lambda>_ _ n. n + 1), hits = 2, misses = 0 \<rparr>,
                   ttlMs = 50, refreshOnAccess = False,
                   qc_hits = 1, qc_misses = 1, expirations = 1, evictions = 0 \<rparr>)"
proof -
  let ?e = "\<lparr> entry_value = \<lparr> qc_value = Some ''v'', expiresAt = At 1050 \<rparr>, timestamp = 1000 \<rparr>"
  let ?qc1 = "qc_set (qc_fresh 10 50 False) ''k'' (Some ''v'') (1000, 1000)"
  have qc1: "?qc1 = \<lparr> qc_cache = \<lparr> cache = [(''k'', ?e)], maxSize = 10, maxAge = None,
                                 onEvict = Some (\<lambda>_ _ n. n + 1), hits = 0, misses = 0 \<rparr>,
                   ttlMs = 50, refreshOnAccess = False,
                   qc_hits = 0, qc_misses = 0, expirations = 0, evictions = 0 \<rparr>"
    by (simp add: qc_fresh_def lru_set_def map_has_def map_set_def)
  let ?qc2 = "snd (qc_get ?qc1 ''k'' (1000, 1000, 1000))"
  have qc2: "?qc2 = \<lparr> qc_cache = \<lparr> cache = [(''k'', ?e)], maxSize = 10, maxAge = None,
                                 onEvict = Some (\<lambda>_ _ n. n + 1), hits = 1, misses = 0 \<rparr>,
                   ttlMs = 50, refreshOnAccess = False,
                   qc_hits = 1, qc_misses = 0, expirations = 0, evictions = 0 \<rparr>"
    unfolding qc1
    by (simp add: lru_get_def map_get_def isExpired_def map_delete_def map_set_def map_has_def)
  have a: "fst (qc_get ?qc1 ''k'' (1000, 1000, 1000)) = Some ''v''"
    using ttl_expiry [where qc = ?qc1 and key = "''k''" and e = ?e and ?now1.0 = 1000
        and ?now0.0 = 1000 and ?now2.0 = 1000]
    unfolding qc1 by (simp add: map_get_def)
  have b: "qc_get ?qc2 ''k'' (1100, 1100, 1100)
       = (None, \<lparr> qc_cache = \<lparr> cache = [], maxSize = 10, maxAge = None,
                                 onEvict = Some (\<lambda>_ _ n. n + 1), hits = 2, misses = 0 \<rparr>,
                   ttlMs = 50, refreshOnAccess = False,
                   qc_hits = 1, qc_misses = 1, expirations = 1, evictions = 0 \<rparr>)"
    using ttl_expiry [where qc = ?qc2 and key = "''k''" and e = ?e and ?now1.0 = 1100
        and ?now0.0 = 1100 and ?now2.0 = 1100]
    unfolding qc2 by (simp add: map_get_def map_delete_def)
  show ?thesis using a b by simp
qed


subsection \<open>What a lookup leaves behind\<close>

lemma map_get_delete: "map_get (map_delete m k) k' = (if k' = k then None else map_get m k')"
  unfolding map_get_def map_delete_def
  by (induction m) auto

lemma map_get_snoc:
  "map_get (m @ [(k, a)]) k' =
     (case map_get m k' of Some b \<Rightarrow> Some b | None \<Rightarrow> if k' = k then Some a else None)"
  unfolding map_get_def by (induction m) auto

lemma map_get_move_to_end:
  "map_get m k = Some a \<Longrightarrow> map_get (map_delete m k @ [(k, a)]) k' = map_get m k'"
  by (simp add: map_get_snoc map_get_delete split: option.splits)

lemma map_get_assign:
  "map_get (map (\<lambda>(k, e). if k = key then (k, f e) else (k, e)) m) k' =
     (if k' = key then map_option f (map_get m k') else map_get m k')"
  unfolding map_get_def by (induction m) auto

text \<open>What \<^verbatim>\<open>get\<close> does to the stored entries: it removes the key, or keeps every key with
  its value (the entry under the key may get a new \<^verbatim>\<open>expiresAt\<close>).\<close>

lemma lru_get_lookup:
  "map_get (cache (snd (lru_get c key now))) k =
     (if k = key \<and> fst (lru_get c key now) = None then None else map_get (cache c) k)"
  by (auto simp: lru_get_def map_get_delete map_get_move_to_end split: option.splits)

lemma qc_get_lookup:
  "map_option (qc_value \<circ> entry_value) (map_get (cache (qc_cache (snd (qc_get qc key tget)))) k) =
     (if k = key \<and> \<not> map_has (cache (qc_cache (snd (qc_get qc key tget)))) key then None
      else map_option (qc_value \<circ> entry_value) (map_get (cache (qc_cache qc)) k))"
proof -
  obtain now0 now1 now2 where t: "tget = (now0, now1, now2)" by (cases tget)
  obtain r c1 where g: "lru_get (qc_cache qc) key now0 = (r, c1)" by (cases "lru_get (qc_cache qc) key now0")
  have l: "map_get (cache c1) k = (if k = key \<and> r = None then None else map_get (cache (qc_cache qc)) k)"
    using lru_get_lookup [of "qc_cache qc" key now0 k] g by simp
  show ?thesis
  proof (cases r)
    case None
    then show ?thesis using t g l by (auto simp: map_get_None_has [symmetric])
  next
    case (Some entry)
    then show ?thesis using t g l
      by (auto simp: lru_delete_def map_get_delete assign_expiresAt_def map_get_assign
          map_get_None_has [symmetric] option.map_comp comp_def split: option.splits)
  qed
qed

lemma qc_get_result:
  "fst (qc_get qc key (now0, now1, now2)) =
     (case map_get (cache (qc_cache qc)) key of
        None \<Rightarrow> None
      | Some e \<Rightarrow>
          if isExpired (qc_cache qc) e now0 then None
          else if ttlMs qc > 0 \<and> now_gt now1 (expiresAt (entry_value e)) then None
          else qc_value (entry_value e))"
  by (simp add: lru_get_def split: option.splits)

lemma qc_get_None_stored:
  assumes "qc_get qc key tget = (None, qc1)"
    and "map_get (cache (qc_cache qc1)) key = Some e"
  shows "qc_value (entry_value e) = None"
proof -
  obtain now0 now1 now2 where t: "tget = (now0, now1, now2)" by (cases tget)
  have r: "fst (qc_get qc key (now0, now1, now2)) = None" using assms(1) t by simp
  have q: "qc1 = snd (qc_get qc key tget)" using assms(1) by simp
  have has: "map_has (cache (qc_cache qc1)) key"
    using assms(2) by (rule map_get_Some_has)
  from qc_get_lookup [of qc key tget key] has q assms(2)
  have old: "map_option (qc_value \<circ> entry_value) (map_get (cache (qc_cache qc)) key)
      = Some (qc_value (entry_value e))"
    by simp
  then obtain e0 where e0: "map_get (cache (qc_cache qc)) key = Some e0"
    "qc_value (entry_value e0) = qc_value (entry_value e)"
    by (cases "map_get (cache (qc_cache qc)) key") auto
  have "\<not> isExpired (qc_cache qc) e0 now0 \<and>
        \<not> (ttlMs qc > 0 \<and> now_gt now1 (expiresAt (entry_value e0)))"
  proof (rule ccontr)
    assume "\<not> ?thesis"
    then have "\<not> map_has (cache (qc_cache (snd (qc_get qc key (now0, now1, now2))))) key"
      using e0(1)
      by (auto simp: lru_get_def lru_delete_def map_get_None_has [symmetric] map_get_delete
          split: option.splits)
    then show False using has q t by simp
  qed
  then show ?thesis using r [unfolded qc_get_result] e0 by (auto split: if_splits)
qed

lemma qc_get_None_again:
  assumes "qc_get qc key tget = (None, qc1)"
  shows "fst (qc_get qc1 key tget') = None"
proof -
  obtain now0 now1 now2 where t: "tget' = (now0, now1, now2)" by (cases tget')
  show ?thesis unfolding t qc_get_result
    using qc_get_None_stored [OF assms] by (auto split: option.splits)
qed


subsection \<open>Failing computations\<close>

lemma qc_getOrCompute_miss:
  assumes "fst (qc_get qc key tget) = None"
  shows "qc_getOrCompute qc key g tget tset w =
           (case g w of
              (Inl e, w') \<Rightarrow> (Inl e, snd (qc_get qc key tget), w')
            | (Inr v, w') \<Rightarrow> (Inr v, qc_set (snd (qc_get qc key tget)) key v tset, w'))"
proof -
  obtain r qc1 where "qc_get qc key tget = (r, qc1)" by (cases "qc_get qc key tget")
  then show ?thesis using assms
    by (simp add: qc_getOrCompute_def split: prod.splits sum.splits)
qed

lemma qc_getOrCompute_throws:
  assumes "qc_get qc key tget = (None, qc1)" and "computeFn w = (Inl err, w1)"
  shows "qc_getOrCompute qc key computeFn tget tset w = (Inl err, qc1, w1)"
  using assms by (simp add: qc_getOrCompute_def)

lemma qc_getOrCompute_invokes:
  assumes "fst (qc_get qc key tget) = None"
  shows "fst (qc_getOrCompute qc key g tget tset w) = fst (g w) \<and>
         snd (snd (qc_getOrCompute qc key g tget tset w)) = snd (g w)"
  by (cases "g w"; cases "fst (g w)") (simp_all add: qc_getOrCompute_miss [OF assms])

text \<open>
  Claim C4, amended. Let the lookup that opens \<^verbatim>\<open>getOrCompute\<close> find nothing to return and
  leave the cache \<open>qc1\<close>. If \<^verbatim>\<open>computeFn\<close> throws \<open>err\<close>, the call throws the same \<open>err\<close> and
  leaves the cache exactly \<open>qc1\<close>: nothing is written after the lookup. The lookup itself
  writes no entry (every key of \<open>qc1\<close> has the value it had, and the key looked up is the
  only one that can be gone), but it does count the access and removes an expired entry,
  so the state is that of the lookup and not the state before the call. The next
  \<^verbatim>\<open>getOrCompute\<close> on the same key invokes its compute function again. With a compute
  function that throws on its first call and succeeds afterwards, the first call throws,
  the second returns the value, and the function has been called exactly twice.
\<close>

theorem getOrCompute_failure:
  assumes "qc_get qc key tget = (None, qc1)"
  shows "(computeFn w = (Inl err, w1) \<longrightarrow>
            qc_getOrCompute qc key computeFn tget tset w = (Inl err, qc1, w1) \<and>
            fst (qc_getOrCompute qc1 key g tget' tset' w1) = fst (g w1) \<and>
            snd (snd (qc_getOrCompute qc1 key g tget' tset' w1)) = snd (g w1))
       \<and> map_option (qc_value \<circ> entry_value) (map_get (cache (qc_cache qc1)) k) =
           (if k = key \<and> \<not> map_has (cache (qc_cache qc1)) key then None
            else map_option (qc_value \<circ> entry_value) (map_get (cache (qc_cache qc)) k))
       \<and> qc_getOrCompute qc key (failing_then err v) tget tset 0 = (Inl err, qc1, 1)
       \<and> fst (qc_getOrCompute qc1 key (failing_then err v) tget' tset' 1) = Inr v
       \<and> snd (snd (qc_getOrCompute qc1 key (failing_then err v) tget' tset' 1)) = 2"
proof -
  have miss: "fst (qc_get qc key tget) = None" and qc1: "snd (qc_get qc key tget) = qc1"
    using assms by simp_all
  have again: "fst (qc_get qc1 key tget') = None"
    using assms by (rule qc_get_None_again)
  have entries: "map_option (qc_value \<circ> entry_value) (map_get (cache (qc_cache qc1)) k) =
           (if k = key \<and> \<not> map_has (cache (qc_cache qc1)) key then None
            else map_option (qc_value \<circ> entry_value) (map_get (cache (qc_cache qc)) k))"
    using qc_get_lookup [of qc key tget k] qc1 by simp
  have f0: "failing_then err v 0 = (Inl err, 1)" and f1: "failing_then err v 1 = (Inr v, 2)"
    by (simp_all add: failing_then_def)
  show ?thesis
    using qc_getOrCompute_throws [OF assms, of computeFn w err w1 tset]
      qc_getOrCompute_invokes [OF again, of g tset' w1] entries
      qc_getOrCompute_throws [OF assms, of "failing_then err v" 0 err 1 tset] f0
      qc_getOrCompute_invokes [OF again, of "failing_then err v" tset' 1] f1
    by simp
qed

theorem getOrCompute_failure_witness:
  "qc_getOrCompute (qc_fresh 10 60000 False) ''key1'' (failing_then ''Compute failed'' (Some ''success''))
      (0, 0, 0) (0, 0) 0
     = (Inl ''Compute failed'',
        \<lparr> qc_cache = \<lparr> cache = [], maxSize = 10, maxAge = None,
                        onEvict = Some (\<lambda>_ _ n. n + 1), hits = 0, misses = 1 \<rparr>,
          ttlMs = 60000, refreshOnAccess = False,
          qc_hits = 0, qc_misses = 1, expirations = 0, evictions = 0 \<rparr>, 1)
   \<and> fst (qc_getOrCompute
        \<lparr> qc_cache = \<lparr> cache = [], maxSize = 10, maxAge = None,
                        onEvict = Some (\<lambda>_ _ n. n + 1), hits = 0, misses = 1 \<rparr>,
          ttlMs = 60000, refreshOnAccess = False,
          qc_hits = 0, qc_misses = 1, expirations = 0, evictions = 0 \<rparr>
        ''key1'' (failing_then ''Compute failed'' (Some ''success'')) (5, 5, 5) (6, 6) 1)
     = Inr (Some ''success'')"
proof -
  let ?qc1 = "\<lparr> qc_cache = \<lparr> cache = [], maxSize = 10, maxAge = None,
                        onEvict = Some (\<lambda>_ _ n. n + 1), hits = 0, misses = 1 \<rparr>,
          ttlMs = 60000, refreshOnAccess = False,
          qc_hits = 0, qc_misses = 1, expirations = 0, evictions = 0 \<rparr>"
  have h: "qc_get (qc_fresh 10 60000 False) ''key1'' (0, 0, 0) = (None, ?qc1)"
    by (simp add: qc_fresh_def lru_get_def map_get_def)
  from getOrCompute_failure [OF h, where err = "''Compute failed''" and v = "Some ''success''"
      and tset = "(0, 0)" and tget' = "(5, 5, 5)" and tset' = "(6, 6)",
      THEN conjunct2, THEN conjunct2]
  show ?thesis by simp
qed

text \<open>
  The claim as stated says that a failed \<^verbatim>\<open>getOrCompute\<close> leaves the cache state
  unchanged. Here an entry stored at time 1000 with \<open>ttlMs = 50\<close> is looked up at time 1100
  by a \<^verbatim>\<open>getOrCompute\<close> whose compute function throws: the error comes back, but the
  cache is not the one before the call, the expired entry is gone and a miss was counted.
\<close>

theorem getOrCompute_failure_counterexample:
  "fst (qc_getOrCompute (qc_set (qc_fresh 10 50 False) ''k'' (Some ''v'') (1000, 1000)) ''k''
          (\<lambda>w. (Inl ''Compute failed'', w)) (1100, 1100, 1100) (1100, 1100) ())
     = Inl ''Compute failed''
   \<and> fst (snd (qc_getOrCompute (qc_set (qc_fresh 10 50 False) ''k'' (Some ''v'') (1000, 1000)) ''k''
          (\<lambda>w. (Inl ''Compute failed'', w)) (1100, 1100, 1100) (1100, 1100) ()))
     \<noteq> qc_set (qc_fresh 10 50 False) ''k'' (Some ''v'') (1000, 1000)
   \<and> map fst (cache (qc_cache (qc_set (qc_fresh 10 50 False) ''k'' (Some ''v'') (1000, 1000)))) = [''k'']
   \<and> map fst (cache (qc_cache (fst (snd (qc_getOrCompute
          (qc_set (qc_fresh 10 50 False) ''k'' (Some ''v'') (1000, 1000)) ''k''
          (\<lambda>w. (Inl ''Compute failed'', w)) (1100, 1100, 1100) (1100, 1100) ()))))) = []
   \<and> qc_misses (fst (snd (qc_getOrCompute
          (qc_set (qc_fresh 10 50 False) ''k'' (Some ''v'') (1000, 1000)) ''k''
          (\<lambda>w. (Inl ''Compute failed'', w)) (1100, 1100, 1100) (1100, 1100) ()))) = 1
   \<and> qc_misses (qc_set (qc_fresh 10 50 False) ''k'' (Some ''v'') (1000, 1000)) = 0"
  by (simp add: qc_getOrCompute_def qc_fresh_def lru_set_def lru_get_def lru_delete_def
      isExpired_def map_has_def map_get_def map_set_def map_delete_def)


subsection \<open>Prefix invalidation\<close>

lemma forEach_collect:
  "fold (\<lambda>(key, entry) keys. if P key then keys @ [key] else keys) m acc =
     acc @ filter P (map fst m)"
  by (induction m arbitrary: acc) (auto simp: case_prod_beta)

lemma fold_lru_delete:
  "fold (\<lambda>key c. snd (lru_delete c key)) ks c =
     c\<lparr>cache := filter (\<lambda>entry. fst entry \<notin> set ks) (cache c)\<rparr>"
proof (induction ks arbitrary: c)
  case Nil
  then show ?case by simp
next
  case (Cons k ks)
  have "filter (\<lambda>entry. fst entry \<notin> set ks) (map_delete (cache c) k) =
        filter (\<lambda>entry. fst entry \<notin> set (k # ks)) (cache c)"
    by (auto simp: map_delete_def intro: filter_cong)
  then show ?case using Cons.IH [of "snd (lru_delete c k)"] by (simp add: lru_delete_def)
qed

lemma filter_not_collected:
  "filter (\<lambda>entry. fst entry \<notin> set (filter P (map fst m))) m =
     filter (\<lambda>entry. \<not> P (fst entry)) m"
  by (rule filter_cong) auto

lemma qc_invalidateByPrefix_filter:
  "qc_invalidateByPrefix qc p =
     qc\<lparr>qc_cache := (qc_cache qc)\<lparr>cache := filter (\<lambda>entry. \<not> startsWith (fst entry) p)
                                               (cache (qc_cache qc))\<rparr>\<rparr>"
  unfolding qc_invalidateByPrefix_def lru_forEach_def Let_def
    forEach_collect [where acc = "[]", simplified] fold_lru_delete filter_not_collected
  by simp

text \<open>
  Claim C6. \<^verbatim>\<open>invalidateByPrefix(p)\<close> returns (it is a total function, one step) the same
  cache with exactly the entries whose key starts with \<open>p\<close> removed: every other entry
  stays, in its place and with its value, and no counter changes. With the keys
  \<^verbatim>\<open>"p:/x:a"\<close>, \<^verbatim>\<open>"p:/x:b"\<close>, \<^verbatim>\<open>"p:/y:a"\<close>, \<^verbatim>\<open>invalidateByPrefix("p:/x")\<close> leaves the
  third key only, and a \<^verbatim>\<open>get\<close> of it still returns its value.
\<close>

theorem prefix_invalidation:
  "qc_invalidateByPrefix qc p =
     qc\<lparr>qc_cache := (qc_cache qc)\<lparr>cache := filter (\<lambda>entry. \<not> startsWith (fst entry) p)
                                               (cache (qc_cache qc))\<rparr>\<rparr>
   \<and> map fst (cache (qc_cache (qc_invalidateByPrefix
        (qc_set (qc_set (qc_set (qc_fresh 10 60000 False) ''p:/x:a'' v1 t1) ''p:/x:b'' v2 t2)
           ''p:/y:a'' v3 t3) ''p:/x''))) = [''p:/y:a'']
   \<and> fst (qc_get (qc_invalidateByPrefix
        (qc_set (qc_set (qc_set (qc_fresh 10 60000 False) ''p:/x:a'' v1 t1) ''p:/x:b'' v2 t2)
           ''p:/y:a'' v3 (now, t4)) ''p:/x'') ''p:/y:a'' (now0, now, now2)) = v3"
proof -
  obtain a1 b1 a2 b2 a3 b3 where t: "t1 = (a1, b1)" "t2 = (a2, b2)" "t3 = (a3, b3)"
    by (cases t1; cases t2; cases t3) auto
  have keys: "map fst (cache (qc_cache (qc_invalidateByPrefix
        (qc_set (qc_set (qc_set (qc_fresh 10 60000 False) ''p:/x:a'' v1 t1) ''p:/x:b'' v2 t2)
           ''p:/y:a'' v3 t3) ''p:/x''))) = [''p:/y:a'']" for t3
    unfolding qc_invalidateByPrefix_filter t
    by (cases t3)
       (simp add: qc_fresh_def lru_set_def map_has_def map_set_def map_delete_def startsWith_def)
  have getv: "fst (qc_get (qc_invalidateByPrefix
        (qc_set (qc_set (qc_set (qc_fresh 10 60000 False) ''p:/x:a'' v1 t1) ''p:/x:b'' v2 t2)
           ''p:/y:a'' v3 (now, t4)) ''p:/x'') ''p:/y:a'' (now0, now, now2)) = v3" for t4
    unfolding qc_invalidateByPrefix_filter t qc_get_result
    by (simp add: qc_fresh_def lru_set_def map_has_def map_set_def map_delete_def startsWith_def
        map_get_def isExpired_def)
  show ?thesis using keys getv qc_invalidateByPrefix_filter by blast
qed


subsection \<open>The value \<^verbatim>\<open>undefined\<close>\<close>

lemma lru_set_snoc:
  "\<exists>m. cache (fst (lru_set c key v now w)) = m @ [(key, \<lparr> entry_value = v, timestamp = now \<rparr>)]
       \<and> \<not> map_has m key"
proof (cases "map_has (cache c) key")
  case True
  then show ?thesis by (simp add: lru_set_def)
next
  case False
  then show ?thesis
    by (cases "cache c") (auto simp: lru_set_def map_set_fresh)
qed

lemma lru_set_lookup:
  "map_get (cache (fst (lru_set c key v now w))) key = Some \<lparr> entry_value = v, timestamp = now \<rparr>"
proof -
  obtain m where m: "cache (fst (lru_set c key v now w)) =
      m @ [(key, \<lparr> entry_value = v, timestamp = now \<rparr>)]" "\<not> map_has m key"
    using lru_set_snoc [of c key v now w] by blast
  show ?thesis unfolding m(1) using m(2) map_get_None_has [of m key]
    by (simp add: map_get_snoc)
qed

lemma qc_set_lookup:
  "\<exists>e. map_get (cache (qc_cache (qc_set qc key v tset))) key = Some e \<and>
       qc_value (entry_value e) = v"
  by (cases tset) (simp add: Let_def case_prod_beta lru_set_lookup)

text \<open>
  Claim C10. Let the cache hold an entry for \<open>key\<close> whose value is \<^verbatim>\<open>undefined\<close>. Then
  \<^verbatim>\<open>getOrCompute(key, computeFn)\<close> invokes \<^verbatim>\<open>computeFn\<close> (its result and its effect on the
  world are those of \<^verbatim>\<open>computeFn\<close>), although the entry is present; when \<^verbatim>\<open>computeFn\<close>
  returns \<^verbatim>\<open>undefined\<close> again, the entry stored afterwards holds \<^verbatim>\<open>undefined\<close> again, so
  the same happens on every later call. While the entry has not expired, a direct
  \<^verbatim>\<open>get\<close> returns \<^verbatim>\<open>undefined\<close>, as for an absent key, yet counts a hit and keeps the
  entry.
\<close>

theorem undefined_not_memoized:
  assumes "map_get (cache (qc_cache qc)) key = Some e" and "qc_value (entry_value e) = None"
  shows "fst (qc_getOrCompute qc key computeFn (now0, now1, now2) tset w) = fst (computeFn w)
       \<and> snd (snd (qc_getOrCompute qc key computeFn (now0, now1, now2) tset w)) = snd (computeFn w)
       \<and> (fst (computeFn w) = Inr None \<longrightarrow>
            (\<exists>e'. map_get (cache (qc_cache (fst (snd
                      (qc_getOrCompute qc key computeFn (now0, now1, now2) tset w))))) key = Some e'
                  \<and> qc_value (entry_value e') = None))
       \<and> (\<not> isExpired (qc_cache qc) e now0 \<and>
          \<not> (ttlMs qc > 0 \<and> now_gt now1 (expiresAt (entry_value e))) \<longrightarrow>
            fst (qc_get qc key (now0, now1, now2)) = None \<and>
            qc_hits (snd (qc_get qc key (now0, now1, now2))) = qc_hits qc + 1 \<and>
            qc_misses (snd (qc_get qc key (now0, now1, now2))) = qc_misses qc \<and>
            map_has (cache (qc_cache (snd (qc_get qc key (now0, now1, now2))))) key)"
proof -
  have miss: "fst (qc_get qc key (now0, now1, now2)) = None"
    unfolding qc_get_result using assms by simp
  have stored: "\<exists>e'. map_get (cache (qc_cache (fst (snd
                      (qc_getOrCompute qc key computeFn (now0, now1, now2) tset w))))) key = Some e'
                  \<and> qc_value (entry_value e') = None"
    if h: "fst (computeFn w) = Inr None"
  proof -
    obtain w' where cw: "computeFn w = (Inr None, w')"
      using h by (metis prod.collapse)
    have "qc_getOrCompute qc key computeFn (now0, now1, now2) tset w =
        (Inr None, qc_set (snd (qc_get qc key (now0, now1, now2))) key None tset, w')"
      by (simp add: qc_getOrCompute_miss [OF miss] cw del: qc_get.simps)
    then show ?thesis
      using qc_set_lookup [of "snd (qc_get qc key (now0, now1, now2))" key None tset]
      by (simp del: qc_get.simps)
  qed
  have hit: "qc_hits (snd (qc_get qc key (now0, now1, now2))) = qc_hits qc + 1 \<and>
            qc_misses (snd (qc_get qc key (now0, now1, now2))) = qc_misses qc \<and>
            map_has (cache (qc_cache (snd (qc_get qc key (now0, now1, now2))))) key"
    if "\<not> isExpired (qc_cache qc) e now0"
       "\<not> (ttlMs qc > 0 \<and> now_gt now1 (expiresAt (entry_value e)))"
    using that assms(1)
    by (auto simp: lru_get_present assign_expiresAt_def map_has_def image_iff)
  show ?thesis
    using qc_getOrCompute_invokes [OF miss, of computeFn tset w] stored hit miss by blast
qed

theorem undefined_not_memoized_witness:
  "fst (qc_getOrCompute (qc_set (qc_fresh 10 60000 False) ''k'' (None :: string option) (0, 0)) ''k''
          (\<lambda>n. (Inr None :: string + string option, Suc n)) (1, 1, 1) (2, 2) (0 :: nat)) = Inr None
   \<and> snd (snd (qc_getOrCompute (qc_set (qc_fresh 10 60000 False) ''k'' (None :: string option) (0, 0)) ''k''
          (\<lambda>n. (Inr None :: string + string option, Suc n)) (1, 1, 1) (2, 2) (0 :: nat))) = 1
   \<and> fst (qc_get (qc_set (qc_fresh 10 60000 False) ''k'' (None :: string option) (0, 0)) ''k'' (1, 1, 1))
       = None
   \<and> qc_hits (snd (qc_get (qc_set (qc_fresh 10 60000 False) ''k'' (None :: string option) (0, 0)) ''k''
         (1, 1, 1))) = 1
   \<and> lru_size (qc_cache (qc_set (qc_fresh 10 60000 False) ''k'' (None :: string option) (0, 0))) = 1"
proof -
  let ?e = "\<lparr> entry_value = \<lparr> qc_value = (None :: string option), expiresAt = At 60000 \<rparr>,
              timestamp = 0 \<rparr>"
  let ?qc = "qc_set (qc_fresh 10 60000 False) ''k'' (None :: string option) (0, 0)"
  have qc: "?qc = \<lparr> qc_cache = \<lparr> cache = [(''k'', ?e)], maxSize = 10, maxAge = None,
                                 onEvict = Some (\<lambda>_ _ n. n + 1), hits = 0, misses = 0 \<rparr>,
                   ttlMs = 60000, refreshOnAccess = False,
                   qc_hits = 0, qc_misses = 0, expirations = 0, evictions = 0 \<rparr>"
    by (simp add: qc_fresh_def lru_set_def map_has_def map_set_def)
  have h1: "map_get (cache (qc_cache ?qc)) ''k'' = Some ?e"
    unfolding qc by (simp add: map_get_def)
  have h2: "qc_value (entry_value ?e) = None" by simp
  from undefined_not_memoized [OF h1 h2, where computeFn = "\<lambda>n. (Inr None :: string + string option, Suc n)"
      and w = 0 and ?now0.0 = 1 and ?now1.0 = 1 and ?now2.0 = 1 and tset = "(2, 2)"]
  show ?thesis unfolding qc by (simp add: isExpired_def lru_size_def)
qed

section \<open>Properties of the Cache Key Builder\<close>

subsection \<open>Order of the keys\<close>

lemma set_own_keys [simp]: "set (own_keys obj) = fst ` set obj"
  by (auto simp: own_keys_def)





subsection \<open>The object that is serialised\<close>



subsection \<open>Decimal numbers\<close>











subsection \<open>Quoted strings\<close>











subsection \<open>Scalars\<close>







subsection \<open>Objects\<close>









subsection \<open>The key\<close>












section \<open>Properties of the Statement Cache\<close>

subsection \<open>Failed preparation\<close>

lemma lru_get_absent:
  "\<not> map_has (cache c) key \<Longrightarrow> lru_get c key now = (None, c\<lparr>misses := misses c + 1\<rparr>)"
  using map_get_None_has [of "cache c" key] by (simp add: lru_get_def)

text \<open>
  Claim C7, amended. When the normalised text is not cached and \<^verbatim>\<open>db.prepare\<close> throws
  \<open>err\<close>, \<^verbatim>\<open>prepare\<close> throws the same \<open>err\<close>, stores nothing (the entries of the inner cache
  are the same) and leaves \<^verbatim>\<open>hits\<close> as it is, but it has counted the call as a miss:
  \<^verbatim>\<open>this.misses++\<close> comes before \<^verbatim>\<open>this.db.prepare\<close>, and the inner \<^verbatim>\<open>get\<close> counted a
  miss of its own.
\<close>

theorem failed_preparation:
  assumes "\<not> map_has (cache (sc_cache sc)) (normalizeSQL sql)"
    and "db_prepare sc (normalizeSQL sql) w = (Inl err, w')"
  shows "sc_prepare sc sql (now0, now1) w =
           (Inl err,
            sc\<lparr>sc_cache := (sc_cache sc)\<lparr>misses := misses (sc_cache sc) + 1\<rparr>,
               sc_misses := sc_misses sc + 1\<rparr>,
            w')"
  using assms by (simp add: lru_get_absent)

lemma normalizeSQL_INVALID: "normalizeSQL ''INVALID SQL'' = ''INVALID SQL''"
  by (simp add: normalizeSQL_def trim_def isSpace_def)

theorem failed_preparation_witness:
  "sc_prepare (sc_fresh throwingDb 10) ''INVALID SQL'' (0, 0) 0
    = (Inl ''SQL syntax error'',
       \<lparr> sc_cache = \<lparr> cache = [], maxSize = 10, maxAge = None, onEvict = None,
                       hits = 0, misses = 1 \<rparr>,
         db_prepare = throwingDb, sc_hits = 0, sc_misses = 1 \<rparr>, 1)"
  using failed_preparation
    [where sc = "sc_fresh throwingDb 10" and sql = "''INVALID SQL''" and w = 0
       and err = "''SQL syntax error''" and w' = 1 and ?now0.0 = 0 and ?now1.0 = 0]
  by (simp add: map_has_def sc_fresh_def throwingDb_def)

text \<open>
  The claim as stated says that the failed call leaves the Statement Cache's \<^verbatim>\<open>misses\<close>
  unchanged. With the database of the test ``should propagate prepare errors'' the
  counter goes from 0 to 1.
\<close>

theorem failed_preparation_counterexample:
  "fst (sc_prepare (sc_fresh throwingDb 10) ''INVALID SQL'' (0, 0) 0) = Inl ''SQL syntax error''
   \<and> sc_misses (sc_fresh throwingDb 10) = 0
   \<and> sc_misses (fst (snd (sc_prepare (sc_fresh throwingDb 10) ''INVALID SQL'' (0, 0) 0))) = 1"
  by (simp add: normalizeSQL_INVALID sc_fresh_def throwingDb_def lru_get_def map_get_def)

subsection \<open>Normalisation\<close>

lemma normalizeSQL_literal:
  "normalizeSQL ''SELECT 'a  b' AS x'' = ''SELECT 'a b' AS x''"
  "normalizeSQL ''SELECT 'a b' AS x'' = ''SELECT 'a b' AS x''"
  by (simp_all add: normalizeSQL_def trim_def isSpace_def)

text \<open>
  Claim C8 at a failing input. The texts \<^verbatim>\<open>SELECT 'a  b' AS x\<close> and \<^verbatim>\<open>SELECT 'a b' AS x\<close>
  are different statements (their string literals differ), but \<^verbatim>\<open>normalizeSQL\<close> also
  collapses the white space inside the quotes: the first \<^verbatim>\<open>prepare\<close> hands the database
  the second text, and the second \<^verbatim>\<open>prepare\<close> is a cache hit that returns the handle of
  the first, with a single call of \<^verbatim>\<open>db.prepare\<close>.
\<close>

theorem normalization_collides_literals:
  "sc_prepare (sc_fresh mockDb 10) ''SELECT 'a  b' AS x'' (0, 0) 0
     = (Inr ''SELECT 'a b' AS x'',
        \<lparr> sc_cache = \<lparr> cache = [(''SELECT 'a b' AS x'',
                                   \<lparr> entry_value = ''SELECT 'a b' AS x'', timestamp = 0 \<rparr>)],
                        maxSize = 10, maxAge = None, onEvict = None, hits = 0, misses = 1 \<rparr>,
          db_prepare = mockDb, sc_hits = 0, sc_misses = 1 \<rparr>,
        1)
   \<and> sc_prepare
        \<lparr> sc_cache = \<lparr> cache = [(''SELECT 'a b' AS x'',
                                   \<lparr> entry_value = ''SELECT 'a b' AS x'', timestamp = 0 \<rparr>)],
                        maxSize = 10, maxAge = None, onEvict = None, hits = 0, misses = 1 \<rparr>,
          db_prepare = mockDb, sc_hits = 0, sc_misses = 1 \<rparr>
        ''SELECT 'a b' AS x'' (1, 1) 1
     = (Inr ''SELECT 'a b' AS x'',
        \<lparr> sc_cache = \<lparr> cache = [(''SELECT 'a b' AS x'',
                                   \<lparr> entry_value = ''SELECT 'a b' AS x'', timestamp = 0 \<rparr>)],
                        maxSize = 10, maxAge = None, onEvict = None, hits = 1, misses = 1 \<rparr>,
          db_prepare = mockDb, sc_hits = 1, sc_misses = 1 \<rparr>,
        1)
   \<and> ''SELECT 'a  b' AS x'' \<noteq> ''SELECT 'a b' AS x''"
  by (simp add: Let_def normalizeSQL_literal sc_fresh_def mockDb_def lru_get_def lru_set_def
      isExpired_def map_get_def map_has_def map_set_def map_delete_def)

subsection \<open>Texts with the same normal form\<close>

lemma tokens_words: "list_all word (tokens s)"
proof (induction s)
  case Nil
  then show ?case by simp
next
  case (Cons c cs)
  then show ?case
    by (cases cs; cases "tokens cs") (auto simp: word_def)
qed

lemma tokens_Nil_iff: "tokens s = [] \<longleftrightarrow> list_all isSpace s"
proof (induction s)
  case Nil
  then show ?case by simp
next
  case (Cons c cs)
  then show ?case by (cases cs; cases "tokens cs") auto
qed

lemma tokens_dropWhile: "tokens (dropWhile isSpace s) = tokens s"
  by (induction s) auto

lemma join_Cons_Cons: "ws \<noteq> [] \<Longrightarrow> join sep (w # ws) = w @ sep @ join sep ws"
  by (cases ws) simp_all

lemma join_prepend: "join sep ((c # w) # ws) = c # join sep (w # ws)"
  by (cases ws) simp_all

lemma replace_ws_tokens:
  "replace_ws s = lead s @ join '' '' (tokens s) @ trail s"
proof (induction s rule: replace_ws.induct)
  case 1
  then show ?case by (simp add: lead_def trail_def)
next
  case (2 c cs)
  show ?case
  proof (cases "isSpace c")
    case True
    let ?r = "dropWhile isSpace cs"
    have ih: "replace_ws ?r = lead ?r @ join '' '' (tokens ?r) @ trail ?r"
      using 2(1) True by simp
    have l: "lead ?r = []"
      using hd_dropWhile [of isSpace cs] by (auto simp: lead_def)
    have t: "trail ?r = trail (c # cs)"
    proof (cases "tokens cs = []")
      case True
      then show ?thesis by (simp add: trail_def tokens_dropWhile \<open>isSpace c\<close>)
    next
      case False
      then have "\<not> list_all isSpace cs" by (simp add: tokens_Nil_iff)
      then have "?r \<noteq> []" by (simp add: list_all_iff)
      then have "last ?r = last cs \<and> cs \<noteq> []"
        by (metis dropWhile.simps(1) last_appendR takeWhile_dropWhile_id)
      then show ?thesis by (simp add: trail_def tokens_dropWhile \<open>isSpace c\<close>)
    qed
    show ?thesis
      using True ih l t by (simp add: lead_def tokens_dropWhile)
  next
    case False
    have ih: "replace_ws cs = lead cs @ join '' '' (tokens cs) @ trail cs"
      using 2(2) False by simp
    show ?thesis
    proof (cases cs)
      case Nil
      then show ?thesis using False by (simp add: lead_def trail_def)
    next
      case (Cons d ds)
      show ?thesis
      proof (cases "isSpace d")
        case True
        show ?thesis
        proof (cases "tokens cs = []")
          case True
          then have "list_all isSpace cs" by (simp add: tokens_Nil_iff)
          then have "isSpace (last cs)" using Cons by (simp add: list_all_iff)
          then show ?thesis
            using False \<open>isSpace d\<close> Cons ih True by (simp add: lead_def trail_def)
        next
          case nonempty: False
          then show ?thesis
            using False \<open>isSpace d\<close> Cons ih
            by (simp add: lead_def trail_def join_Cons_Cons)
        qed
      next
        case nd: False
        then have "\<not> list_all isSpace cs" using Cons by simp
        then have "tokens cs \<noteq> []" using tokens_Nil_iff [of cs] by blast
        then obtain w ws where w: "tokens cs = w # ws" by (cases "tokens cs") auto
        then show ?thesis
          using False nd Cons ih by (simp add: lead_def trail_def join_prepend)
      qed
    qed
  qed
qed


lemma join_words_ends:
  "list_all word ws \<Longrightarrow> ws \<noteq> [] \<Longrightarrow>
   join '' '' ws \<noteq> [] \<and> \<not> isSpace (hd (join '' '' ws)) \<and> \<not> isSpace (last (join '' '' ws))"
proof (induction "'' ''" ws rule: join.induct)
  case 1
  then show ?case by simp
next
  case (2 x)
  then show ?case by (cases x) (auto simp: word_def list_all_iff)
next
  case (3 x y ys)
  then show ?case by (cases x) (auto simp: word_def)
qed

lemma trim_framed:
  assumes "J \<noteq> []" "\<not> isSpace (hd J)" "\<not> isSpace (last J)"
    and "list_all isSpace l" "list_all isSpace t"
  shows "trim (l @ J @ t) = J"
proof -
  have "dropWhile isSpace (l @ J @ t) = dropWhile isSpace (J @ t)"
    using assms(4) by (intro dropWhile_append2) (simp add: list_all_iff)
  also have "\<dots> = J @ t" using assms(1,2) by (cases J) simp_all
  finally have a: "dropWhile isSpace (l @ J @ t) = J @ t" .
  have "dropWhile isSpace (rev t @ rev J) = dropWhile isSpace (rev J)"
    using assms(5) by (intro dropWhile_append2) (simp add: list_all_iff)
  also have "\<dots> = rev J"
  proof -
    have "rev J \<noteq> []" using assms(1) by simp
    moreover have "\<not> isSpace (hd (rev J))" using assms(1,3) by (simp add: hd_rev)
    ultimately show ?thesis by (metis dropWhile.simps(2) list.collapse)
  qed
  finally show ?thesis by (simp add: trim_def a)
qed

lemma normalizeSQL_tokens: "normalizeSQL s = join '' '' (tokens s)"
proof (cases "tokens s = []")
  case True
  then have "replace_ws s = lead s" by (simp add: replace_ws_tokens trail_def)
  then show ?thesis using True
    by (simp add: normalizeSQL_def trim_def lead_def isSpace_def)
next
  case False
  have sp: "list_all isSpace (lead s)" "list_all isSpace (trail s)"
    by (simp_all add: lead_def trail_def isSpace_def)
  from join_words_ends [OF tokens_words False] sp show ?thesis
    unfolding normalizeSQL_def replace_ws_tokens [of s] by (intro trim_framed) simp_all
qed


lemma tokens_word_append:
  "word w \<Longrightarrow> tokens (w @ CHR 0x20 # r) = w # tokens r"
proof (induction w)
  case Nil
  then show ?case by (simp add: word_def)
next
  case (Cons c w)
  have sp: "isSpace (CHR 0x20)" by (simp add: isSpace_def)
  show ?case
  proof (cases w)
    case Nil
    then show ?thesis using Cons.prems sp by (simp add: word_def)
  next
    case (Cons d w')
    then have "word w" using Cons.prems by (simp add: word_def)
    then have "tokens (w @ CHR 0x20 # r) = w # tokens r" by (rule Cons.IH)
    then show ?thesis using Cons Cons.prems by (simp add: word_def)
  qed
qed

lemma tokens_word: "word w \<Longrightarrow> tokens w = [w]"
proof (induction w)
  case Nil
  then show ?case by (simp add: word_def)
next
  case (Cons c w)
  show ?case
  proof (cases w)
    case Nil
    then show ?thesis using Cons.prems by (simp add: word_def)
  next
    case (Cons d w')
    then have "word w" using Cons.prems by (simp add: word_def)
    then have "tokens w = [w]" by (rule Cons.IH)
    then show ?thesis using Cons Cons.prems by (simp add: word_def)
  qed
qed

lemma tokens_join: "list_all word ws \<Longrightarrow> tokens (join '' '' ws) = ws"
proof (induction "'' ''" ws rule: join.induct)
  case 1
  then show ?case by simp
next
  case (2 x)
  then show ?case by (simp add: tokens_word)
next
  case (3 x y ys)
  then show ?case using tokens_word_append [of x "join '' '' (y # ys)"] by simp
qed

text \<open>
  \<^verbatim>\<open>normalizeSQL\<close> returns the words of the text with one space between them. So two texts
  have the same normal form exactly when they have the same words, that is, when they
  differ only in runs of white space (of any length and of any white-space characters,
  line breaks included) and in white space at the ends; and normalising twice changes
  nothing. The example of the spec is an instance.
\<close>

theorem normalization_is_tokenwise:
  "(normalizeSQL s = normalizeSQL s' \<longleftrightarrow> tokens s = tokens s')
   \<and> normalizeSQL (normalizeSQL s) = normalizeSQL s
   \<and> normalizeSQL (''SELECT  *'' @ [CHR 0x0A] @ '' FROM t'') = normalizeSQL ''SELECT * FROM t''"
proof -
  have t: "tokens (normalizeSQL s) = tokens s" for s
    by (simp add: normalizeSQL_tokens tokens_join tokens_words)
  have "normalizeSQL s = normalizeSQL s' \<longleftrightarrow> tokens s = tokens s'"
  proof
    assume "normalizeSQL s = normalizeSQL s'"
    then have "tokens (normalizeSQL s) = tokens (normalizeSQL s')" by (rule arg_cong)
    then show "tokens s = tokens s'" by (simp only: t)
  next
    assume "tokens s = tokens s'"
    then show "normalizeSQL s = normalizeSQL s'" by (simp only: normalizeSQL_tokens)
  qed
  moreover have "normalizeSQL (normalizeSQL s) = normalizeSQL s"
  proof -
    have "normalizeSQL (normalizeSQL s) = join '' '' (tokens (normalizeSQL s))"
      by (rule normalizeSQL_tokens)
    also have "\<dots> = join '' '' (tokens s)" by (simp only: t)
    also have "\<dots> = normalizeSQL s" by (rule normalizeSQL_tokens [symmetric])
    finally show ?thesis .
  qed
  moreover have "normalizeSQL (''SELECT  *'' @ [CHR 0x0A] @ '' FROM t'') = normalizeSQL ''SELECT * FROM t''"
    by (simp add: normalizeSQL_def trim_def isSpace_def)
  ultimately show ?thesis by (intro conjI)
qed


lemma sc_prepare_stores:
  assumes "maxAge (sc_cache sc) = None"
    and "sc_prepare sc sql (now0, now1) w = (Inr h, sc1, w1)"
  shows "maxAge (sc_cache sc1) = None \<and> db_prepare sc1 = db_prepare sc \<and>
         (\<exists>e. map_get (cache (sc_cache sc1)) (normalizeSQL sql) = Some e \<and> entry_value e = h)"
proof (cases "map_get (cache (sc_cache sc)) (normalizeSQL sql)")
  case None
  then have g: "lru_get (sc_cache sc) (normalizeSQL sql) now0 =
      (None, (sc_cache sc)\<lparr>misses := misses (sc_cache sc) + 1\<rparr>)"
    by (simp add: lru_get_def)
  obtain r w' where d: "db_prepare sc (normalizeSQL sql) w = (r, w')"
    by (cases "db_prepare sc (normalizeSQL sql) w")
  show ?thesis
  proof (cases r)
    case (Inl e)
    then show ?thesis using assms(2) g d by (simp add: Let_def)
  next
    case (Inr stmt)
    then have sc1: "sc1 = sc\<lparr>sc_cache := fst (lru_set ((sc_cache sc)\<lparr>misses := misses (sc_cache sc) + 1\<rparr>)
          (normalizeSQL sql) stmt now1 ()), sc_misses := sc_misses sc + 1\<rparr>" and h: "h = stmt"
      using assms(2) g d by (auto simp: Let_def)
    have "maxAge (fst (lru_set c k v t u)) = maxAge c" for c :: "('a, unit) LRUCache" and k v t u
      by (simp add: lru_set_def case_prod_beta)
    then show ?thesis using assms(1) unfolding sc1 h
      by (simp add: lru_set_lookup)
  qed
next
  case (Some e)
  then have g: "lru_get (sc_cache sc) (normalizeSQL sql) now0 =
      (Some (entry_value e),
       (sc_cache sc)\<lparr>cache := map_delete (cache (sc_cache sc)) (normalizeSQL sql)
                               @ [(normalizeSQL sql, e)],
                     hits := hits (sc_cache sc) + 1\<rparr>)"
    using assms(1) by (simp add: lru_get_present)
  then have "sc1 = sc\<lparr>sc_cache := (sc_cache sc)\<lparr>cache := map_delete (cache (sc_cache sc)) (normalizeSQL sql)
                               @ [(normalizeSQL sql, e)],
                     hits := hits (sc_cache sc) + 1\<rparr>, sc_hits := sc_hits sc + 1\<rparr>"
    and "h = entry_value e"
    using assms(2) by (auto simp: Let_def)
  then show ?thesis using assms(1) Some
    by (simp add: map_get_move_to_end)
qed

text \<open>
  After a \<^verbatim>\<open>prepare\<close> that returned a handle, a \<^verbatim>\<open>prepare\<close> of any text with the same
  normal form is a hit: it returns the same handle, counts a hit and no miss, and leaves
  the world of \<^verbatim>\<open>db.prepare\<close> as it is (the database is not asked again).
\<close>

theorem prepare_reuses_normal_form:
  assumes "maxAge (sc_cache sc) = None"
    and "normalizeSQL sql' = normalizeSQL sql"
    and "sc_prepare sc sql (now0, now1) w = (Inr h, sc1, w1)"
  shows "fst (sc_prepare sc1 sql' (now2, now3) w1) = Inr h
       \<and> snd (snd (sc_prepare sc1 sql' (now2, now3) w1)) = w1
       \<and> sc_hits (fst (snd (sc_prepare sc1 sql' (now2, now3) w1))) = sc_hits sc1 + 1
       \<and> sc_misses (fst (snd (sc_prepare sc1 sql' (now2, now3) w1))) = sc_misses sc1"
proof -
  from sc_prepare_stores [OF assms(1,3)]
  obtain e where e: "maxAge (sc_cache sc1) = None"
    "map_get (cache (sc_cache sc1)) (normalizeSQL sql) = Some e" "entry_value e = h"
    by blast
  then show ?thesis using assms(2) by (simp add: lru_get_present Let_def)
qed

lemma normalizeSQL_spec_example:
  "normalizeSQL (''SELECT  *'' @ [CHR 0x0A] @ '' FROM t'') = ''SELECT * FROM t''"
  "normalizeSQL ''SELECT * FROM t'' = ''SELECT * FROM t''"
  by (simp_all add: normalizeSQL_def trim_def isSpace_def)

theorem prepare_reuses_normal_form_witness:
  "fst (sc_prepare (fst (snd (sc_prepare (sc_fresh mockDb 10)
          (''SELECT  *'' @ [CHR 0x0A] @ '' FROM t'') (0, 0) 0)))
        ''SELECT * FROM t'' (1, 1) 1) = Inr ''SELECT * FROM t''
   \<and> snd (snd (sc_prepare (fst (snd (sc_prepare (sc_fresh mockDb 10)
          (''SELECT  *'' @ [CHR 0x0A] @ '' FROM t'') (0, 0) 0)))
        ''SELECT * FROM t'' (1, 1) 1)) = 1"
proof -
  let ?sc1 = "\<lparr> sc_cache = \<lparr> cache = [(''SELECT * FROM t'',
                                   \<lparr> entry_value = ''SELECT * FROM t'', timestamp = 0 \<rparr>)],
                        maxSize = 10, maxAge = None, onEvict = None, hits = 0, misses = 1 \<rparr>,
          db_prepare = mockDb, sc_hits = 0, sc_misses = 1 \<rparr>"
  have h1: "maxAge (sc_cache (sc_fresh mockDb 10 :: (string, string, nat) StatementCache)) = None"
    by (simp add: sc_fresh_def)
  have h2: "normalizeSQL ''SELECT * FROM t'' = normalizeSQL (''SELECT  *'' @ [CHR 0x0A] @ '' FROM t'')"
    by (simp add: normalizeSQL_def trim_def isSpace_def)
  have h3: "sc_prepare (sc_fresh mockDb 10) (''SELECT  *'' @ [CHR 0x0A] @ '' FROM t'') (0, 0) 0
      = (Inr ''SELECT * FROM t'', ?sc1, 1)"
    by (simp add: Let_def normalizeSQL_def trim_def isSpace_def sc_fresh_def mockDb_def
        lru_get_def lru_set_def map_get_def map_has_def map_set_def)
  from prepare_reuses_normal_form [OF h1 h2 h3, of 1 1]
  show ?thesis unfolding h3 by simp
qed


section \<open>Statistics and construction\<close>

text \<open>
  The hit rate of every layer lies between 0 and 1; it is 0.8 after 4 hits and 1 miss and
  0 when nothing was accessed; the size reported is the number of stored entries.
\<close>

theorem hit_rate:
  "0 \<le> stat_hitRate (lru_getStats c) \<and> stat_hitRate (lru_getStats c) \<le> 1
   \<and> stat_hitRate (lru_getStats (c\<lparr>hits := 4, misses := 1\<rparr>)) = 4 / 5
   \<and> stat_hitRate (lru_getStats (c\<lparr>hits := 0, misses := 0\<rparr>)) = 0
   \<and> qstat_hitRate (qc_getStats (qc\<lparr>qc_hits := 4, qc_misses := 1\<rparr>)) = 4 / 5
   \<and> qstat_hitRate (qc_getStats (qc\<lparr>qc_hits := 0, qc_misses := 0\<rparr>)) = 0
   \<and> stat_hitRate (sc_getStats (sc\<lparr>sc_hits := 3, sc_misses := 2\<rparr>)) = 3 / 5
   \<and> stat_size (lru_getStats c) = lru_size c"
  by (simp add: lru_getStats_def qc_getStats_def sc_getStats_def Let_def lru_size_def
      divide_le_eq_1)

text \<open>
  The three constructors fail with the error of \<^verbatim>\<open>LRUCache\<close> exactly when
  \<open>maxSize < 1\<close>, and no cache (hence no entry) exists then; otherwise the new cache is empty.
\<close>

theorem construction_guard:
  "(opt_maxSize options < 1 \<longrightarrow>
      new_LRUCache options = Inl (Error ''maxSize must be at least 1''))
   \<and> (1 \<le> opt_maxSize options \<longrightarrow>
      (\<exists>c. new_LRUCache options = Inr c \<and> cache c = [] \<and> maxSize c = opt_maxSize options))
   \<and> (qopt_maxSize qoptions < 1 \<longrightarrow>
      (new_QueryCache qoptions :: error + 'v QueryCache) = Inl (Error ''maxSize must be at least 1''))
   \<and> (n < 1 \<longrightarrow>
      (new_StatementCache db n :: error + ('h, 'e, 'w) StatementCache)
        = Inl (Error ''maxSize must be at least 1''))"
  by (simp add: new_LRUCache_def new_QueryCache_def new_StatementCache_def)

theorem construction_guard_witness:
  "(new_LRUCache \<lparr> opt_maxSize = 0, opt_maxAge = None, opt_onEvict = None \<rparr>
      :: error + (nat, unit) LRUCache) = Inl (Error ''maxSize must be at least 1'')
   \<and> (new_QueryCache \<lparr> qopt_maxSize = 0, qopt_ttlMs = 50, qopt_refreshOnAccess = None \<rparr>
      :: error + nat QueryCache) = Inl (Error ''maxSize must be at least 1'')
   \<and> (new_StatementCache mockDb 0 :: error + (string, string, nat) StatementCache)
      = Inl (Error ''maxSize must be at least 1'')
   \<and> (new_LRUCache \<lparr> opt_maxSize = 1, opt_maxAge = None, opt_onEvict = None \<rparr>
      :: error + (nat, unit) LRUCache)
      = Inr \<lparr> cache = [], maxSize = 1, maxAge = None, onEvict = None, hits = 0, misses = 0 \<rparr>"
  using construction_guard
    [where options = "\<lparr> opt_maxSize = 0, opt_maxAge = None, opt_onEvict = None \<rparr> :: (nat, unit) LRUCacheOptions"
       and qoptions = "\<lparr> qopt_maxSize = 0, qopt_ttlMs = 50, qopt_refreshOnAccess = None \<rparr>"
       and n = 0 and db = mockDb]
    construction_guard
    [where options = "\<lparr> opt_maxSize = 1, opt_maxAge = None, opt_onEvict = None \<rparr> :: (nat, unit) LRUCacheOptions",
       THEN conjunct2, THEN conjunct1]
  by (simp add: new_LRUCache_def)


text \<open>
  The \<^verbatim>\<open>evictions\<close> counter of the Query Result Cache goes up by one exactly in a \<^verbatim>\<open>set\<close>
  of a new key at capacity, and \<^verbatim>\<open>getStats\<close> reports the counters and the inner size.
\<close>

theorem evictions_counter:
  assumes "onEvict (qc_cache qc) = Some (\<lambda>_ _ n. n + 1)"
  shows "evictions (qc_set qc key v ts) =
           (if \<not> map_has (cache (qc_cache qc)) key \<and>
               int (length (cache (qc_cache qc))) \<ge> maxSize (qc_cache qc) \<and>
               cache (qc_cache qc) \<noteq> []
            then evictions qc + 1 else evictions qc)
       \<and> evictions (snd (qc_get qc key tg)) = evictions qc
       \<and> evictions (qc_invalidateByPrefix qc p) = evictions qc
       \<and> qstat_evictions (qc_getStats qc) = evictions qc
       \<and> qstat_expirations (qc_getStats qc) = expirations qc
       \<and> qstat_size (qc_getStats qc) = lru_size (qc_cache qc)"
proof -
  obtain a b where ts: "ts = (a, b)" by (cases ts)
  obtain x y z where tg: "tg = (x, y, z)" by (cases tg) auto
  have s: "evictions (qc_set qc key v ts) =
           (if \<not> map_has (cache (qc_cache qc)) key \<and>
               int (length (cache (qc_cache qc))) \<ge> maxSize (qc_cache qc) \<and>
               cache (qc_cache qc) \<noteq> []
            then evictions qc + 1 else evictions qc)"
    unfolding ts using assms
    by (cases "cache (qc_cache qc)") (auto simp: Let_def case_prod_beta lru_set_def)
  have g: "evictions (snd (qc_get qc key tg)) = evictions qc"
    unfolding tg by (simp split: prod.splits option.splits)
  show ?thesis using s g
    by (simp add: qc_invalidateByPrefix_filter qc_getStats_def lru_getStats_def lru_size_def Let_def)
qed

theorem evictions_counter_witness:
  "evictions (qc_set (qc_set (qc_set (qc_fresh 2 0 False) ''a'' (Some (1::nat)) (0, 0))
       ''b'' (Some 2) (0, 0)) ''c'' (Some 3) (0, 0)) = 1
   \<and> evictions (qc_set (qc_set (qc_set (qc_fresh 2 0 False) ''a'' (Some (1::nat)) (0, 0))
       ''b'' (Some 2) (0, 0)) ''b'' (Some 3) (0, 0)) = 0"
proof -
  let ?qc = "qc_set (qc_set (qc_fresh 2 0 False) ''a'' (Some (1::nat)) (0, 0)) ''b'' (Some 2) (0, 0)"
  have qc: "?qc = \<lparr> qc_cache = \<lparr> cache = [(''a'', \<lparr> entry_value = \<lparr> qc_value = Some 1, expiresAt = Infinity \<rparr>, timestamp = 0 \<rparr>),
                                            (''b'', \<lparr> entry_value = \<lparr> qc_value = Some 2, expiresAt = Infinity \<rparr>, timestamp = 0 \<rparr>)],
                                 maxSize = 2, maxAge = None,
                                 onEvict = Some (\<lambda>_ _ n. n + 1), hits = 0, misses = 0 \<rparr>,
                   ttlMs = 0, refreshOnAccess = False,
                   qc_hits = 0, qc_misses = 0, expirations = 0, evictions = 0 \<rparr>"
    by (simp add: qc_fresh_def lru_set_def map_has_def map_set_def)
  have h: "onEvict (qc_cache ?qc) = Some (\<lambda>_ _ n. n + 1)" unfolding qc by simp
  from evictions_counter [OF h, of "''c''" "Some 3" "(0, 0)", THEN conjunct1]
       evictions_counter [OF h, of "''b''" "Some 3" "(0, 0)", THEN conjunct1]
  show ?thesis unfolding qc by (simp add: map_has_def)
qed

end
